theory Spec2Isabelle
  imports Main
begin

section \<open>Atomic fetch-max and fetch-min: the C++ primitives\<close>

text \<open>
  The six enumerators of \<^verbatim>\<open>std::memory_order\<close>, in the order of the standard, and one
  more constructor for any other value of the enumeration's underlying type (the value
  that reaches the final \<^verbatim>\<open>else\<close> of the instruction dispatch).
\<close>

datatype memory_order =
    memory_order_relaxed
  | memory_order_consume
  | memory_order_acquire
  | memory_order_release
  | memory_order_acq_rel
  | memory_order_seq_cst
  | memory_order_other nat

text \<open>\<^verbatim>\<open>load_order\<close> of \<^verbatim>\<open>atomic_maxmin_arm.hpp\<close>.\<close>

definition load_order :: "memory_order \<Rightarrow> memory_order" where
  "load_order m =
     (if m = memory_order_release then memory_order_relaxed
      else if m = memory_order_acq_rel then memory_order_acquire
      else m)"

subsection \<open>The atomic object and the operations of \<^verbatim>\<open>std::atomic<T>\<close>\<close>

text \<open>
  One thread runs against one \<^verbatim>\<open>std::atomic<T>\<close>. The object is its stored value
  together with the log of the atomic operations issued on it, each with the orderings
  it was given, so that what a call did to the location (which operations, in which
  order, with which ordering) can be read off afterwards.
\<close>

datatype 'a event =
    Load memory_order
  | CompareExchange 'a 'a memory_order memory_order bool
  | FetchAdd 'a memory_order
  | Asm string string

record 'a atomic =
  val :: 'a
  trace :: "'a event list"

text \<open>
  \<^verbatim>\<open>pv->load(m)\<close> returns the stored value. The ordering is logged as given: the standard
  forbids release and acq_rel here, and the log shows whether a caller respected that.
\<close>

definition load :: "'a atomic \<Rightarrow> memory_order \<Rightarrow> 'a \<times> 'a atomic" where
  "load pv m = (val pv, pv\<lparr>trace := trace pv @ [Load m]\<rparr>)"

text \<open>
  \<^verbatim>\<open>pv->compare_exchange_weak(expected, desired, success, failure)\<close>. The result is the
  returned flag, the new content of the reference argument \<^verbatim>\<open>expected\<close> and the object.
  The weak form may fail although the stored value equals \<^verbatim>\<open>expected\<close>; the first
  argument says whether this attempt does.
\<close>

definition compare_exchange_weak ::
  "bool \<Rightarrow> 'a atomic \<Rightarrow> 'a \<Rightarrow> 'a \<Rightarrow> memory_order \<Rightarrow> memory_order \<Rightarrow> bool \<times> 'a \<times> 'a atomic" where
  "compare_exchange_weak spurious pv expected desired success failure =
     (if val pv = expected \<and> \<not> spurious
      then (True, expected,
            pv\<lparr>val := desired,
               trace := trace pv @ [CompareExchange expected desired success failure True]\<rparr>)
      else (False, val pv,
            pv\<lparr>trace := trace pv @ [CompareExchange expected desired success failure False]\<rparr>))"

text \<open>\<^verbatim>\<open>pv->fetch_add(d, m)\<close>.\<close>

definition fetch_add :: "'a::plus atomic \<Rightarrow> 'a \<Rightarrow> memory_order \<Rightarrow> 'a \<times> 'a atomic" where
  "fetch_add pv d m = (val pv, pv\<lparr>val := val pv + d, trace := trace pv @ [FetchAdd d m]\<rparr>)"

text \<open>
  The spurious failures of a call are a finite schedule: one flag per compare-and-swap
  attempt, in order; once the schedule is used up no attempt fails spuriously.
\<close>

fun next_spurious :: "bool list \<Rightarrow> bool" where
  "next_spurious [] = False"
| "next_spurious (b # bs) = b"

text \<open>\<^verbatim>\<open>std::max(a, b)\<close> is \<^verbatim>\<open>(a < b) ? b : a\<close>, \<^verbatim>\<open>std::min(a, b)\<close> is \<^verbatim>\<open>(b < a) ? b : a\<close>.\<close>

definition std_max :: "'a::ord \<Rightarrow> 'a \<Rightarrow> 'a" where
  "std_max a b = (if a < b then b else a)"

definition std_min :: "'a::ord \<Rightarrow> 'a \<Rightarrow> 'a" where
  "std_min a b = (if b < a then b else a)"

section \<open>The strategies of \<^verbatim>\<open>fetch_max.hpp\<close>\<close>

datatype type_e = strong | weak | smart | hardware

subsection \<open>Strong\<close>

function strong_loop ::
  "bool list \<Rightarrow> 'a::ord atomic \<Rightarrow> 'a \<Rightarrow> 'a \<Rightarrow> memory_order \<Rightarrow> 'a \<times> 'a atomic" where
  "strong_loop sched pv t v m =
     (let (ok, t', pv') = compare_exchange_weak (next_spurious sched) pv t (std_max v t) m m
      in if \<not> ok then strong_loop (tl sched) pv' t' v m else (t', pv'))"
  by pat_completeness auto
termination
  by (relation "measure (\<lambda>(sched, pv, t, v, m). 2 * length sched + (if val pv = t then 0 else 1))")
     (auto simp: compare_exchange_weak_def split: if_splits elim: next_spurious.elims)

definition atomic_fetch_max_strong ::
  "bool list \<Rightarrow> 'a::ord atomic \<Rightarrow> 'a \<Rightarrow> memory_order \<Rightarrow> 'a \<times> 'a atomic" where
  "atomic_fetch_max_strong sched pv v m =
     (let (t, pv1) = load pv m in strong_loop sched pv1 t v m)"

subsection \<open>Weak\<close>

function weak_loop ::
  "bool list \<Rightarrow> 'a::ord atomic \<Rightarrow> 'a \<Rightarrow> 'a \<Rightarrow> memory_order \<Rightarrow> 'a \<times> 'a atomic" where
  "weak_loop sched pv t v m =
     (if std_max v t \<noteq> t
      then (let (ok, t', pv') = compare_exchange_weak (next_spurious sched) pv t v m m
            in if ok then (t', pv') else weak_loop (tl sched) pv' t' v m)
      else (t, pv))"
  by pat_completeness auto
termination
  by (relation "measure (\<lambda>(sched, pv, t, v, m). 2 * length sched + (if val pv = t then 0 else 1))")
     (auto simp: compare_exchange_weak_def split: if_splits elim: next_spurious.elims)

definition atomic_fetch_max_weak ::
  "bool list \<Rightarrow> 'a::ord atomic \<Rightarrow> 'a \<Rightarrow> memory_order \<Rightarrow> 'a \<times> 'a atomic" where
  "atomic_fetch_max_weak sched pv v m =
     (let (t, pv1) = load pv m in weak_loop sched pv1 t v m)"

subsection \<open>Smart\<close>

text \<open>
  The loop of the smart strategy leaves the function from inside (\<^verbatim>\<open>return t\<close> after a
  successful compare-and-swap) or ends because its condition is false; the first
  component of the result says which: \<open>True\<close> for the return from inside.
\<close>

function smart_loop ::
  "bool list \<Rightarrow> 'a::ord atomic \<Rightarrow> 'a \<Rightarrow> 'a \<Rightarrow> memory_order \<Rightarrow> bool \<times> 'a \<times> 'a atomic" where
  "smart_loop sched pv t v m =
     (if std_max v t \<noteq> t
      then (let (ok, t', pv') = compare_exchange_weak (next_spurious sched) pv t v m m
            in if ok then (True, t', pv') else smart_loop (tl sched) pv' t' v m)
      else (False, t, pv))"
  by pat_completeness auto
termination
  by (relation "measure (\<lambda>(sched, pv, t, v, m). 2 * length sched + (if val pv = t then 0 else 1))")
     (auto simp: compare_exchange_weak_def split: if_splits elim: next_spurious.elims)

definition atomic_fetch_max_smart ::
  "bool list \<Rightarrow> 'a::{ord,plus,zero} atomic \<Rightarrow> 'a \<Rightarrow> memory_order \<Rightarrow> 'a \<times> 'a atomic" where
  "atomic_fetch_max_smart sched pv v m =
     (let (t, pv1) = load pv m;
          (returned, t', pv2) = smart_loop sched pv1 t v m
      in if returned then (t', pv2)
         else if m = memory_order_release \<or> m = memory_order_acq_rel \<or> m = memory_order_seq_cst
              then (t', snd (fetch_add pv2 0 m))
              else (t', pv2))"

section \<open>The machine: scalar types and the atomic memory instructions\<close>

text \<open>
  What the code asks of the type \<^verbatim>\<open>T\<close>: \<^verbatim>\<open>is_integral<T>::value\<close>, \<^verbatim>\<open>is_signed<T>::value\<close>,
  \<^verbatim>\<open>sizeof(T)\<close>, and, where a value goes through a register or through memory, its
  object representation: the \<open>8 * sizeof(T)\<close> bits of the value, as a number.
\<close>

record 'a ctype =
  is_integral :: bool
  is_signed :: bool
  size_of :: nat
  to_bits :: "'a \<Rightarrow> nat"
  from_bits :: "nat \<Rightarrow> 'a"

text \<open>
  An integral type of \<open>n\<close> bytes, its values the integers it can hold, in two's complement
  when signed.
\<close>

definition integral_type :: "bool \<Rightarrow> nat \<Rightarrow> int ctype" where
  "integral_type sg n =
     \<lparr>is_integral = True, is_signed = sg, size_of = n,
      to_bits = (\<lambda>x. nat (x mod 2 ^ (8 * n))),
      from_bits = (\<lambda>b. if sg \<and> 2 ^ (8 * n - 1) \<le> b then int b - 2 ^ (8 * n) else int b)\<rparr>"

definition int_range :: "bool \<Rightarrow> nat \<Rightarrow> int \<Rightarrow> bool" where
  "int_range sg n x =
     (if sg then - (2 ^ (8 * n - 1)) \<le> x \<and> x < 2 ^ (8 * n - 1) else 0 \<le> x \<and> x < 2 ^ (8 * n))"

text \<open>
  The atomic memory operations \<^verbatim>\<open>LD<S|U><MAX|MIN>{A}{L}{B|H}\<close> of the Armv8.1 large system
  extensions: the mnemonic gives signedness, operation, acquire and release semantics
  and, with \<^verbatim>\<open>B\<close> or \<^verbatim>\<open>H\<close>, an access of 8 or 16 bits; without, the access has the width
  of the registers (\<^verbatim>\<open>W\<close>: 32 bits, \<^verbatim>\<open>X\<close>: 64 bits). \<^verbatim>\<open>B\<close> and \<^verbatim>\<open>H\<close> take \<^verbatim>\<open>W\<close> registers only.
\<close>

record amo =
  amo_signed :: bool
  amo_max :: bool
  amo_acquire :: bool
  amo_release :: bool
  amo_size :: "nat option"

definition decode_suffix :: "string \<Rightarrow> (bool \<times> bool \<times> nat option) option" where
  "decode_suffix sfx = map_of
     [([], (False, False, None)), (''a'', (True, False, None)),
      (''l'', (False, True, None)), (''al'', (True, True, None)),
      (''b'', (False, False, Some 8)), (''ab'', (True, False, Some 8)),
      (''lb'', (False, True, Some 8)), (''alb'', (True, True, Some 8)),
      (''h'', (False, False, Some 16)), (''ah'', (True, False, Some 16)),
      (''lh'', (False, True, Some 16)), (''alh'', (True, True, Some 16))] sfx"

definition decode :: "string \<Rightarrow> amo option" where
  "decode s =
     (let sg = take 1 (drop 2 s); opn = take 3 (drop 3 s)
      in if take 2 s = ''ld'' \<and> (sg = ''s'' \<or> sg = ''u'') \<and> (opn = ''max'' \<or> opn = ''min'')
         then (case decode_suffix (drop 6 s) of
                 None \<Rightarrow> None
               | Some (a, l, sz) \<Rightarrow>
                   Some \<lparr>amo_signed = (sg = ''s''), amo_max = (opn = ''max''),
                         amo_acquire = a, amo_release = l, amo_size = sz\<rparr>)
         else None)"

definition datasize :: "amo \<Rightarrow> string \<Rightarrow> nat option" where
  "datasize a rs =
     (case amo_size a of
        Some n \<Rightarrow> (if rs = ''w'' then Some n else None)
      | None \<Rightarrow> (if rs = ''x'' then Some 64 else if rs = ''w'' then Some 32 else None))"

definition SInt :: "nat \<Rightarrow> nat \<Rightarrow> int" where
  "SInt n b = (if 2 ^ (n - 1) \<le> b then int b - 2 ^ n else int b)"

text \<open>
  The value stored back: \<open>value1\<close> is the data read from memory, \<open>value2\<close> the register
  operand, both of \<open>n\<close> bits.
\<close>

definition amo_result :: "amo \<Rightarrow> nat \<Rightarrow> nat \<Rightarrow> nat \<Rightarrow> nat" where
  "amo_result a n value1 value2 =
     (let gt = (if amo_signed a then SInt n value2 < SInt n value1 else value2 < value1)
      in if amo_max a then (if gt then value1 else value2)
         else (if gt then value2 else value1))"

datatype error = AssertionFailed | Unreachable | InvalidInstruction

text \<open>
  The statement \<^verbatim>\<open>__asm__ __volatile__(MNEMONIC " %" rs "1,%" rs "0,[%2]" : "=r"(x) : "r"(v), "r"(pv) :)\<close>:
  the first register operand, the source, holds \<^verbatim>\<open>v\<close>; the second, the destination,
  becomes \<^verbatim>\<open>x\<close>; the address is \<^verbatim>\<open>pv\<close>. The instruction reads \<open>n\<close> bits at the address,
  stores the result of the operation there and puts the bits it read, zero-extended,
  into the destination. The result is \<^verbatim>\<open>x\<close> and the object. A template that is not
  an instruction gives \<open>InvalidInstruction\<close>.
\<close>

definition asm_ld ::
  "string \<Rightarrow> string \<Rightarrow> 'a ctype \<Rightarrow> 'a atomic \<Rightarrow> 'a \<Rightarrow> error + ('a \<times> 'a atomic)" where
  "asm_ld mnemonic rs T pv v =
     (case decode mnemonic of
        None \<Rightarrow> Inl InvalidInstruction
      | Some a \<Rightarrow>
         (case datasize a rs of
            None \<Rightarrow> Inl InvalidInstruction
          | Some n \<Rightarrow>
             (let w = 8 * size_of T;
                  mem = to_bits T (val pv);
                  value1 = mem mod 2 ^ n;
                  value2 = to_bits T v mod 2 ^ n;
                  result = amo_result a n value1 value2;
                  mem' = (mem div 2 ^ n) * 2 ^ n + result
              in Inr (from_bits T (value1 mod 2 ^ w),
                      pv\<lparr>val := from_bits T (mem' mod 2 ^ w),
                         trace := trace pv @ [Asm mnemonic rs]\<rparr>))))"

subsection \<open>The hardware strategy of \<^verbatim>\<open>fetch_max.hpp\<close>\<close>

text \<open>
  The strategy is declared for \<^verbatim>\<open>std::atomic<int>\<close> only; \<^verbatim>\<open>int\<close> has 4 bytes. The first
  argument is \<^verbatim>\<open>defined(__ARM_ARCH_8A)\<close>. \<^verbatim>\<open>__builtin_unreachable()\<close> is undefined
  behaviour, the outcome \<open>Unreachable\<close>.
\<close>

definition atomic_fetch_max_hardware ::
  "bool \<Rightarrow> int atomic \<Rightarrow> int \<Rightarrow> memory_order \<Rightarrow> error + (int \<times> int atomic)" where
  "atomic_fetch_max_hardware ARM_ARCH_8A pv v m =
     (if ARM_ARCH_8A then
        (if m = memory_order_relaxed then asm_ld ''ldsmax'' ''w'' (integral_type True 4) pv v
         else if m = memory_order_release then asm_ld ''ldsmaxl'' ''w'' (integral_type True 4) pv v
         else if m = memory_order_acquire \<or> m = memory_order_consume
              then asm_ld ''ldsmaxa'' ''w'' (integral_type True 4) pv v
         else if m = memory_order_acq_rel \<or> m = memory_order_seq_cst
              then asm_ld ''ldsmaxal'' ''w'' (integral_type True 4) pv v
         else Inl Unreachable)
      else Inl Unreachable)"

section \<open>The entry points of \<^verbatim>\<open>atomic_maxmin_arm.hpp\<close>\<close>

text \<open>
  The macros. Assertions are enabled (\<^verbatim>\<open>NDEBUG\<close> is not defined): a failed \<^verbatim>\<open>assert\<close> ends
  the process, the outcome \<open>AssertionFailed\<close>.
\<close>

definition DEF0 ::
  "string \<Rightarrow> string \<Rightarrow> string \<Rightarrow> 'a ctype \<Rightarrow> 'a atomic \<Rightarrow> 'a \<Rightarrow> memory_order
     \<Rightarrow> error + ('a \<times> 'a atomic)" where
  "DEF0 opn sz rs T pv v m =
     (if m = memory_order_relaxed then asm_ld (opn @ sz) rs T pv v
      else if m = memory_order_release then asm_ld (opn @ ''l'' @ sz) rs T pv v
      else if m = memory_order_acquire \<or> m = memory_order_consume
           then asm_ld (opn @ ''a'' @ sz) rs T pv v
      else if m = memory_order_acq_rel \<or> m = memory_order_seq_cst
           then asm_ld (opn @ ''al'' @ sz) rs T pv v
      else Inl AssertionFailed)"

definition DEF1 ::
  "string \<Rightarrow> 'a ctype \<Rightarrow> 'a atomic \<Rightarrow> 'a \<Rightarrow> memory_order \<Rightarrow> error + ('a \<times> 'a atomic)" where
  "DEF1 opn T pv v m =
     (if size_of T = 8 then DEF0 opn [] ''x'' T pv v m
      else if size_of T = 4 then DEF0 opn [] ''w'' T pv v m
      else if size_of T = 2 then DEF0 opn ''h'' ''w'' T pv v m
      else if size_of T = 1 then DEF0 opn ''b'' ''w'' T pv v m
      else Inl AssertionFailed)"

definition DEF2 ::
  "string \<Rightarrow> string \<Rightarrow> 'a ctype \<Rightarrow> 'a atomic \<Rightarrow> 'a \<Rightarrow> memory_order
     \<Rightarrow> error + ('a \<times> 'a atomic)" where
  "DEF2 ls opn T pv v m =
     (if is_signed T then DEF1 (ls @ ''s'' @ opn) T pv v m
      else DEF1 (ls @ ''u'' @ opn) T pv v m)"

function explicit_max_loop ::
  "bool list \<Rightarrow> 'a::ord atomic \<Rightarrow> 'a \<Rightarrow> 'a \<Rightarrow> memory_order \<Rightarrow> 'a \<times> 'a atomic" where
  "explicit_max_loop sched pv x v m =
     (let (ok, x', pv') = compare_exchange_weak (next_spurious sched) pv x (std_max v x) m m
      in if \<not> ok then explicit_max_loop (tl sched) pv' x' v m else (x', pv'))"
  by pat_completeness auto
termination
  by (relation "measure (\<lambda>(sched, pv, x, v, m). 2 * length sched + (if val pv = x then 0 else 1))")
     (auto simp: compare_exchange_weak_def split: if_splits elim: next_spurious.elims)

function explicit_min_loop ::
  "bool list \<Rightarrow> 'a::ord atomic \<Rightarrow> 'a \<Rightarrow> 'a \<Rightarrow> memory_order \<Rightarrow> 'a \<times> 'a atomic" where
  "explicit_min_loop sched pv x v m =
     (let (ok, x', pv') = compare_exchange_weak (next_spurious sched) pv x (std_min v x) m m
      in if \<not> ok then explicit_min_loop (tl sched) pv' x' v m else (x', pv'))"
  by pat_completeness auto
termination
  by (relation "measure (\<lambda>(sched, pv, x, v, m). 2 * length sched + (if val pv = x then 0 else 1))")
     (auto simp: compare_exchange_weak_def split: if_splits elim: next_spurious.elims)

definition atomic_fetch_max_explicit ::
  "'a::ord ctype \<Rightarrow> bool list \<Rightarrow> 'a atomic \<Rightarrow> 'a \<Rightarrow> memory_order \<Rightarrow> error + ('a \<times> 'a atomic)" where
  "atomic_fetch_max_explicit T sched pv v m =
     (if is_integral T then
        (if \<not> (size_of T = 8 \<or> size_of T = 4 \<or> size_of T = 2 \<or> size_of T = 1)
         then Inl AssertionFailed
         else DEF2 ''ld'' ''max'' T pv v m)
      else
        (let (x, pv1) = load pv (load_order m)
         in Inr (explicit_max_loop sched pv1 x v m)))"

definition atomic_fetch_min_explicit ::
  "'a::ord ctype \<Rightarrow> bool list \<Rightarrow> 'a atomic \<Rightarrow> 'a \<Rightarrow> memory_order \<Rightarrow> error + ('a \<times> 'a atomic)" where
  "atomic_fetch_min_explicit T sched pv v m =
     (if is_integral T then
        (if \<not> (size_of T = 8 \<or> size_of T = 4 \<or> size_of T = 2 \<or> size_of T = 1)
         then Inl AssertionFailed
         else DEF2 ''ld'' ''min'' T pv v m)
      else
        (let (x, pv1) = load pv (load_order m)
         in Inr (explicit_min_loop sched pv1 x v m)))"

section \<open>The template family and sequences of calls\<close>

text \<open>
  \<^verbatim>\<open>atomic_fetch_max<type_e>\<close> selects a specialisation. The hardware one is declared for
  \<^verbatim>\<open>std::atomic<int>\<close> only, so \<^verbatim>\<open>int\<close> is the type at which all four can be called.
\<close>

definition atomic_fetch_max ::
  "bool \<Rightarrow> type_e \<Rightarrow> bool list \<Rightarrow> int atomic \<Rightarrow> int \<Rightarrow> memory_order
     \<Rightarrow> error + (int \<times> int atomic)" where
  "atomic_fetch_max ARM_ARCH_8A impl sched pv v m =
     (case impl of
        strong \<Rightarrow> Inr (atomic_fetch_max_strong sched pv v m)
      | weak \<Rightarrow> Inr (atomic_fetch_max_weak sched pv v m)
      | smart \<Rightarrow> Inr (atomic_fetch_max_smart sched pv v m)
      | hardware \<Rightarrow> atomic_fetch_max_hardware ARM_ARCH_8A pv v m)"

text \<open>
  A call is the strategy, the schedule of spurious failures it meets, the candidate and
  the ordering. A sequence of calls on one location gives the value of the location
  after each call that returned; the sequence ends where a call does not return.
\<close>

type_synonym call = "type_e \<times> bool list \<times> int \<times> memory_order"

definition strategy :: "call \<Rightarrow> type_e" where
  "strategy c = fst c"

definition candidate :: "call \<Rightarrow> int" where
  "candidate c = fst (snd (snd c))"

definition order_of :: "call \<Rightarrow> memory_order" where
  "order_of c = snd (snd (snd c))"

fun fetch_max_calls :: "bool \<Rightarrow> call list \<Rightarrow> int atomic \<Rightarrow> int list" where
  "fetch_max_calls ARM_ARCH_8A [] pv = []"
| "fetch_max_calls ARM_ARCH_8A ((impl, sched, v, m) # cs) pv =
     (case atomic_fetch_max ARM_ARCH_8A impl sched pv v m of
        Inl e \<Rightarrow> []
      | Inr (r, pv') \<Rightarrow> val pv' # fetch_max_calls ARM_ARCH_8A cs pv')"

section \<open>What a call did\<close>

text \<open>
  The six orderings of the standard; the operations a call issued, read off the log of
  the object before and after it; the pair of returned value and final stored value;
  the number of attempts that failed spuriously before the first that did not.
\<close>

definition defined_orders :: "memory_order set" where
  "defined_orders = {memory_order_relaxed, memory_order_consume, memory_order_acquire,
     memory_order_release, memory_order_acq_rel, memory_order_seq_cst}"

definition issued :: "'a atomic \<Rightarrow> 'a atomic \<Rightarrow> 'a event list" where
  "issued pv pv' = drop (length (trace pv)) (trace pv')"

fun is_fetch_add :: "'a event \<Rightarrow> bool" where
  "is_fetch_add (FetchAdd d m) = True"
| "is_fetch_add e = False"

definition outcome :: "'a \<times> 'a atomic \<Rightarrow> 'a \<times> 'a" where
  "outcome res = (fst res, val (snd res))"

definition failed_attempts :: "bool list \<Rightarrow> nat" where
  "failed_attempts sched = length (takeWhile (\<lambda>b. b) sched)"

section \<open>Auxiliary facts\<close>

declare strong_loop.simps [simp del] weak_loop.simps [simp del] smart_loop.simps [simp del]
  explicit_max_loop.simps [simp del] explicit_min_loop.simps [simp del]

lemma mod_two_range:
  fixes x P :: int
  assumes "0 < P" "- P \<le> x" "x < P"
  shows "x mod (2 * P) = (if x < 0 then x + 2 * P else x)"
proof (cases "x < 0")
  case True
  have "x mod (2 * P) = (x + 2 * P) mod (2 * P)" by simp
  also have "\<dots> = x + 2 * P" using assms True by (intro mod_pos_pos_trivial) auto
  finally show ?thesis using True by simp
next
  case False
  then show ?thesis using assms by simp
qed

lemma SInt_to_bits:
  assumes "0 < n" "int_range True n x"
  shows "SInt (8 * n) (nat (x mod 2 ^ (8 * n))) = x"
proof -
  define P :: int where "P = 2 ^ (8 * n - 1)"
  have W: "(2::int) ^ (8 * n) = 2 * P"
    using assms(1) unfolding P_def by (metis One_nat_def Suc_pred mult_pos_pos power_Suc zero_less_numeral)
  have Wn: "(2::nat) ^ (8 * n) = 2 * 2 ^ (8 * n - 1)"
    using assms(1) by (metis One_nat_def Suc_pred mult_pos_pos power_Suc zero_less_numeral)
  have P: "0 < P" by (simp add: P_def)
  have r: "- P \<le> x" "x < P" using assms(2) by (simp_all add: int_range_def P_def)
  have m: "x mod (2 * P) = (if x < 0 then x + 2 * P else x)"
    by (rule mod_two_range [OF P r])
  have Pn: "int (2 ^ (8 * n - 1)) = P" by (simp add: P_def)
  show ?thesis
  proof (cases "x < 0")
    case True
    then have "nat (x mod 2 ^ (8 * n)) = nat (x + 2 * P)" using m W by simp
    moreover have "P \<le> x + 2 * P" using r by simp
    ultimately show ?thesis using True r P Pn W
      by (simp add: SInt_def nat_le_iff of_nat_power_le_of_nat_cancel_iff flip: Pn)
  next
    case False
    then have "nat (x mod 2 ^ (8 * n)) = nat x" using m W by simp
    then show ?thesis using False r P Pn
      by (simp add: SInt_def)
  qed
qed

lemma from_bits_SInt:
  "from_bits (integral_type True n) b = SInt (8 * n) b"
  by (simp add: integral_type_def SInt_def)

lemma to_bits_less: "to_bits (integral_type sg n) x < 2 ^ (8 * n)"
proof -
  have "x mod 2 ^ (8 * n) < 2 ^ (8 * n)" by simp
  then show ?thesis by (simp add: integral_type_def nat_less_iff)
qed

lemma to_bits_unsigned:
  assumes "int_range False n x"
  shows "int (to_bits (integral_type False n) x) = x"
  using assms by (simp add: integral_type_def int_range_def)

lemma to_bits_signed:
  assumes "0 < n" "int_range True n x"
  shows "SInt (8 * n) (to_bits (integral_type True n) x) = x"
  using SInt_to_bits [OF assms] by (simp add: integral_type_def)

lemma from_to_bits:
  assumes "0 < n" "int_range sg n x"
  shows "from_bits (integral_type sg n) (to_bits (integral_type sg n) x) = x"
proof (cases sg)
  case True
  then show ?thesis using to_bits_signed assms by (simp add: from_bits_SInt)
next
  case False
  have "from_bits (integral_type False n) b = int b" for b
    by (simp add: integral_type_def)
  then show ?thesis using False to_bits_unsigned [of n x] assms by simp
qed

lemma amo_result_integral:
  assumes n: "0 < n" and x: "int_range sg n x" and y: "int_range sg n y" and a: "amo_signed a = sg"
  shows "amo_result a (8 * n) (to_bits (integral_type sg n) x) (to_bits (integral_type sg n) y)
         = to_bits (integral_type sg n) (if amo_max a then max x y else min x y)"
proof -
  let ?tb = "to_bits (integral_type sg n)"
  have gt: "(if amo_signed a then SInt (8 * n) (?tb y) < SInt (8 * n) (?tb x) else ?tb y < ?tb x)
            \<longleftrightarrow> y < x"
  proof (cases sg)
    case True
    then show ?thesis using a to_bits_signed [OF n] x y by simp
  next
    case False
    have "?tb y < ?tb x \<longleftrightarrow> int (?tb y) < int (?tb x)" by simp
    also have "\<dots> \<longleftrightarrow> y < x" using False to_bits_unsigned x y by simp
    finally show ?thesis using a False by simp
  qed
  show ?thesis
    unfolding amo_result_def Let_def gt by (auto simp: max_def min_def)
qed

lemma asm_ld_integral:
  assumes d: "decode mn = Some a" and ds: "datasize a rs = Some (8 * n)"
    and a: "amo_signed a = sg" and n: "0 < n"
    and x: "int_range sg n (val pv)" and y: "int_range sg n v"
  shows "asm_ld mn rs (integral_type sg n) pv v =
         Inr (val pv, pv\<lparr>val := (if amo_max a then max (val pv) v else min (val pv) v),
                          trace := trace pv @ [Asm mn rs]\<rparr>)"
proof -
  let ?T = "integral_type sg n"
  let ?r = "if amo_max a then max (val pv) v else min (val pv) v"
  have sz: "size_of ?T = n" by (simp add: integral_type_def)
  have m1: "to_bits ?T (val pv) mod 2 ^ (8 * n) = to_bits ?T (val pv)"
    and m2: "to_bits ?T v mod 2 ^ (8 * n) = to_bits ?T v"
    and d1: "to_bits ?T (val pv) div 2 ^ (8 * n) = 0"
    using to_bits_less by simp_all
  have r: "int_range sg n ?r" using x y by (auto simp: max_def min_def)
  have res: "amo_result a (8 * n) (to_bits ?T (val pv)) (to_bits ?T v) = to_bits ?T ?r"
    by (rule amo_result_integral [OF n x y a])
  have m3: "to_bits ?T ?r mod 2 ^ (8 * n) = to_bits ?T ?r"
    using to_bits_less by simp
  show ?thesis
    unfolding asm_ld_def d ds option.case Let_def sz m1 m2 d1 res
    by (simp only: mult_zero_left add_0 m3 m1 from_to_bits [OF n x] from_to_bits [OF n r])
qed

lemma decode_ld:
  assumes "sgc = ''s'' \<or> sgc = ''u''" "opn = ''max'' \<or> opn = ''min''"
    "sfx = [] \<or> sfx = ''l'' \<or> sfx = ''a'' \<or> sfx = ''al''"
    "sz = [] \<or> sz = ''h'' \<or> sz = ''b''"
  shows "decode (''ld'' @ sgc @ opn @ sfx @ sz) =
         Some \<lparr>amo_signed = (sgc = ''s''), amo_max = (opn = ''max''),
               amo_acquire = (sfx = ''a'' \<or> sfx = ''al''),
               amo_release = (sfx = ''l'' \<or> sfx = ''al''),
               amo_size = (if sz = ''b'' then Some 8 else if sz = ''h'' then Some 16 else None)\<rparr>"
  using assms by (elim disjE) (simp_all add: decode_def decode_suffix_def)

lemma DEF0_integral:
  assumes sgc: "sgc = ''s'' \<or> sgc = ''u''" and opn: "opn = ''max'' \<or> opn = ''min''"
    and shape: "(sz, rs, n) \<in> {([], ''x'', 8), ([], ''w'', 4), (''h'', ''w'', 2), (''b'', ''w'', 1)}"
    and m: "m \<in> defined_orders"
    and x: "int_range (sgc = ''s'') n (val pv)" and y: "int_range (sgc = ''s'') n v"
  shows "\<exists>mn. DEF0 (''ld'' @ sgc @ opn) sz rs (integral_type (sgc = ''s'') n) pv v m =
         Inr (val pv, pv\<lparr>val := (if opn = ''max'' then max (val pv) v else min (val pv) v),
                          trace := trace pv @ [Asm mn rs]\<rparr>)"
proof -
  have n: "0 < n" using shape by auto
  have sz: "sz = [] \<or> sz = ''h'' \<or> sz = ''b''" using shape by auto
  have step: "asm_ld (''ld'' @ sgc @ opn @ sfx @ sz) rs (integral_type (sgc = ''s'') n) pv v =
         Inr (val pv, pv\<lparr>val := (if opn = ''max'' then max (val pv) v else min (val pv) v),
                          trace := trace pv @ [Asm (''ld'' @ sgc @ opn @ sfx @ sz) rs]\<rparr>)"
    if sfx: "sfx = [] \<or> sfx = ''l'' \<or> sfx = ''a'' \<or> sfx = ''al''" for sfx
  proof -
    note d = decode_ld [OF sgc opn sfx sz]
    have ds: "datasize \<lparr>amo_signed = (sgc = ''s''), amo_max = (opn = ''max''),
               amo_acquire = (sfx = ''a'' \<or> sfx = ''al''),
               amo_release = (sfx = ''l'' \<or> sfx = ''al''),
               amo_size = (if sz = ''b'' then Some 8 else if sz = ''h'' then Some 16 else None)\<rparr> rs
              = Some (8 * n)"
      using shape by (auto simp: datasize_def)
    show ?thesis
      using asm_ld_integral [OF d ds _ n x y] by simp
  qed
  let ?T = "integral_type (sgc = ''s'') n"
  let ?opn = "''ld'' @ sgc @ opn"
  from m consider "m = memory_order_relaxed" | "m = memory_order_release"
    | "m = memory_order_acquire \<or> m = memory_order_consume"
    | "m = memory_order_acq_rel \<or> m = memory_order_seq_cst"
    unfolding defined_orders_def by blast
  then have "\<exists>sfx. (sfx = [] \<or> sfx = ''l'' \<or> sfx = ''a'' \<or> sfx = ''al'') \<and>
     DEF0 ?opn sz rs ?T pv v m = asm_ld (''ld'' @ sgc @ opn @ sfx @ sz) rs ?T pv v"
  proof cases
    case 1
    then have "DEF0 ?opn sz rs ?T pv v m = asm_ld (''ld'' @ sgc @ opn @ [] @ sz) rs ?T pv v"
      by (simp add: DEF0_def)
    then show ?thesis by blast
  next
    case 2
    then have "DEF0 ?opn sz rs ?T pv v m = asm_ld (''ld'' @ sgc @ opn @ ''l'' @ sz) rs ?T pv v"
      by (simp add: DEF0_def)
    then show ?thesis by blast
  next
    case 3
    then have "DEF0 ?opn sz rs ?T pv v m = asm_ld (''ld'' @ sgc @ opn @ ''a'' @ sz) rs ?T pv v"
      by (auto simp add: DEF0_def)
    then show ?thesis by blast
  next
    case 4
    then have "DEF0 ?opn sz rs ?T pv v m = asm_ld (''ld'' @ sgc @ opn @ ''al'' @ sz) rs ?T pv v"
      by (auto simp add: DEF0_def)
    then show ?thesis by blast
  qed
  then obtain sfx where sfx: "sfx = [] \<or> sfx = ''l'' \<or> sfx = ''a'' \<or> sfx = ''al''"
    and e: "DEF0 ?opn sz rs ?T pv v m = asm_ld (''ld'' @ sgc @ opn @ sfx @ sz) rs ?T pv v"
    by blast
  show ?thesis
    unfolding e step [OF sfx] by (rule exI [of _ "''ld'' @ sgc @ opn @ sfx @ sz"]) (rule refl)
qed

lemma DEF2_integral:
  assumes opn: "opn = ''max'' \<or> opn = ''min''"
    and n: "n = 1 \<or> n = 2 \<or> n = 4 \<or> n = 8"
    and m: "m \<in> defined_orders"
    and x: "int_range sg n (val pv)" and y: "int_range sg n v"
  shows "\<exists>mn rs. DEF2 ''ld'' opn (integral_type sg n) pv v m =
         Inr (val pv, pv\<lparr>val := (if opn = ''max'' then max (val pv) v else min (val pv) v),
                          trace := trace pv @ [Asm mn rs]\<rparr>)"
proof -
  define sgc where "sgc = (if sg then ''s'' else ''u'')"
  have sgc: "sgc = ''s'' \<or> sgc = ''u''" and sg: "sg = (sgc = ''s'')"
    by (simp_all add: sgc_def)
  let ?T = "integral_type sg n"
  have T: "is_signed ?T = sg" "size_of ?T = n"
    by (simp_all add: integral_type_def)
  have D2: "DEF2 ''ld'' opn ?T pv v m = DEF1 (''ld'' @ sgc @ opn) ?T pv v m"
    unfolding DEF2_def T sgc_def by simp
  have "\<exists>sz rs. (sz, rs, n) \<in> {([], ''x'', 8), ([], ''w'', 4), (''h'', ''w'', 2), (''b'', ''w'', 1)}
         \<and> DEF1 (''ld'' @ sgc @ opn) ?T pv v m = DEF0 (''ld'' @ sgc @ opn) sz rs ?T pv v m"
    using n
  proof (elim disjE)
    assume "n = 1"
    then have "DEF1 (''ld'' @ sgc @ opn) ?T pv v m = DEF0 (''ld'' @ sgc @ opn) ''b'' ''w'' ?T pv v m"
      unfolding DEF1_def T by simp
    then show ?thesis using \<open>n = 1\<close> by blast
  next
    assume "n = 2"
    then have "DEF1 (''ld'' @ sgc @ opn) ?T pv v m = DEF0 (''ld'' @ sgc @ opn) ''h'' ''w'' ?T pv v m"
      unfolding DEF1_def T by simp
    then show ?thesis using \<open>n = 2\<close> by blast
  next
    assume "n = 4"
    then have "DEF1 (''ld'' @ sgc @ opn) ?T pv v m = DEF0 (''ld'' @ sgc @ opn) [] ''w'' ?T pv v m"
      unfolding DEF1_def T by simp
    then show ?thesis using \<open>n = 4\<close> by blast
  next
    assume "n = 8"
    then have "DEF1 (''ld'' @ sgc @ opn) ?T pv v m = DEF0 (''ld'' @ sgc @ opn) [] ''x'' ?T pv v m"
      unfolding DEF1_def T by simp
    then show ?thesis using \<open>n = 8\<close> by blast
  qed
  then obtain sz rs where
    shape: "(sz, rs, n) \<in> {([], ''x'', 8), ([], ''w'', 4), (''h'', ''w'', 2), (''b'', ''w'', 1)}"
    and D1: "DEF1 (''ld'' @ sgc @ opn) ?T pv v m = DEF0 (''ld'' @ sgc @ opn) sz rs ?T pv v m"
    by blast
  from DEF0_integral [OF sgc opn shape m x [unfolded sg] y [unfolded sg]]
  obtain mn where "DEF0 (''ld'' @ sgc @ opn) sz rs (integral_type (sgc = ''s'') n) pv v m =
         Inr (val pv, pv\<lparr>val := (if opn = ''max'' then max (val pv) v else min (val pv) v),
                          trace := trace pv @ [Asm mn rs]\<rparr>)" ..
  then have "DEF2 ''ld'' opn ?T pv v m =
         Inr (val pv, pv\<lparr>val := (if opn = ''max'' then max (val pv) v else min (val pv) v),
                          trace := trace pv @ [Asm mn rs]\<rparr>)"
    using D2 D1 sg by simp
  then show ?thesis by (intro exI)
qed

lemma hardware_arm:
  assumes m: "m \<in> defined_orders"
    and x: "int_range True 4 (val pv)" and y: "int_range True 4 v"
  shows "\<exists>mn. atomic_fetch_max_hardware True pv v m =
         Inr (val pv, pv\<lparr>val := max (val pv) v, trace := trace pv @ [Asm mn ''w'']\<rparr>)"
proof -
  have step: "asm_ld (''ld'' @ ''s'' @ ''max'' @ sfx @ []) ''w'' (integral_type True 4) pv v =
         Inr (val pv, pv\<lparr>val := max (val pv) v,
                          trace := trace pv @ [Asm (''ld'' @ ''s'' @ ''max'' @ sfx @ []) ''w'']\<rparr>)"
    if sfx: "sfx = [] \<or> sfx = ''l'' \<or> sfx = ''a'' \<or> sfx = ''al''" for sfx
  proof -
    have d: "decode (''ld'' @ ''s'' @ ''max'' @ sfx @ []) =
         Some \<lparr>amo_signed = True, amo_max = True,
               amo_acquire = (sfx = ''a'' \<or> sfx = ''al''),
               amo_release = (sfx = ''l'' \<or> sfx = ''al''),
               amo_size = None\<rparr>"
      using decode_ld [of "''s''" "''max''" sfx "[]"] sfx by simp
    have ds: "datasize \<lparr>amo_signed = True, amo_max = True,
               amo_acquire = (sfx = ''a'' \<or> sfx = ''al''),
               amo_release = (sfx = ''l'' \<or> sfx = ''al''),
               amo_size = None\<rparr> ''w'' = Some (8 * 4)"
      by (simp add: datasize_def)
    show ?thesis using asm_ld_integral [OF d ds _ _ x y] by simp
  qed
  from m consider "m = memory_order_relaxed" | "m = memory_order_release"
    | "m = memory_order_acquire \<or> m = memory_order_consume"
    | "m = memory_order_acq_rel \<or> m = memory_order_seq_cst"
    unfolding defined_orders_def by blast
  then have "\<exists>sfx. (sfx = [] \<or> sfx = ''l'' \<or> sfx = ''a'' \<or> sfx = ''al'') \<and>
     atomic_fetch_max_hardware True pv v m =
       asm_ld (''ld'' @ ''s'' @ ''max'' @ sfx @ []) ''w'' (integral_type True 4) pv v"
  proof cases
    case 1
    then have "atomic_fetch_max_hardware True pv v m =
        asm_ld (''ld'' @ ''s'' @ ''max'' @ [] @ []) ''w'' (integral_type True 4) pv v"
      by (simp add: atomic_fetch_max_hardware_def)
    then show ?thesis by blast
  next
    case 2
    then have "atomic_fetch_max_hardware True pv v m =
        asm_ld (''ld'' @ ''s'' @ ''max'' @ ''l'' @ []) ''w'' (integral_type True 4) pv v"
      by (simp add: atomic_fetch_max_hardware_def)
    then show ?thesis by blast
  next
    case 3
    then have "atomic_fetch_max_hardware True pv v m =
        asm_ld (''ld'' @ ''s'' @ ''max'' @ ''a'' @ []) ''w'' (integral_type True 4) pv v"
      by (auto simp add: atomic_fetch_max_hardware_def)
    then show ?thesis by blast
  next
    case 4
    then have "atomic_fetch_max_hardware True pv v m =
        asm_ld (''ld'' @ ''s'' @ ''max'' @ ''al'' @ []) ''w'' (integral_type True 4) pv v"
      by (auto simp add: atomic_fetch_max_hardware_def)
    then show ?thesis by blast
  qed
  then obtain sfx where sfx: "sfx = [] \<or> sfx = ''l'' \<or> sfx = ''a'' \<or> sfx = ''al''"
    and e: "atomic_fetch_max_hardware True pv v m =
       asm_ld (''ld'' @ ''s'' @ ''max'' @ sfx @ []) ''w'' (integral_type True 4) pv v"
    by blast
  show ?thesis
    unfolding e step [OF sfx] by (rule exI [of _ "''ld'' @ ''s'' @ ''max'' @ sfx @ []"]) (rule refl)
qed

lemma std_max_max: "std_max (a::'a::linorder) b = max a b"
  by (auto simp: std_max_def max_def)

lemma std_min_min: "std_min (a::'a::linorder) b = min a b"
  by (auto simp: std_min_def min_def)

lemma strong_loop_single:
  "val pv = t \<Longrightarrow>
   strong_loop sched pv t v m =
     (t, pv\<lparr>val := std_max v t,
           trace := trace pv @ replicate (failed_attempts sched) (CompareExchange t (std_max v t) m m False)
                    @ [CompareExchange t (std_max v t) m m True]\<rparr>)"
proof (induction sched arbitrary: pv)
  case Nil
  then show ?case
    by (subst strong_loop.simps) (simp add: compare_exchange_weak_def failed_attempts_def)
next
  case (Cons b bs)
  show ?case
  proof (cases b)
    case True
    let ?pv' = "pv\<lparr>trace := trace pv @ [CompareExchange t (std_max v t) m m False]\<rparr>"
    have "strong_loop (b # bs) pv t v m = strong_loop bs ?pv' t v m"
      using True Cons.prems by (subst strong_loop.simps) (simp add: compare_exchange_weak_def)
    also have "\<dots> = (t, ?pv'\<lparr>val := std_max v t,
           trace := trace ?pv' @ replicate (failed_attempts bs) (CompareExchange t (std_max v t) m m False)
                    @ [CompareExchange t (std_max v t) m m True]\<rparr>)"
      using Cons.prems by (intro Cons.IH) simp
    finally show ?thesis using True by (simp add: failed_attempts_def)
  next
    case False
    then show ?thesis using Cons.prems
      by (subst strong_loop.simps) (simp add: compare_exchange_weak_def failed_attempts_def)
  qed
qed

lemma explicit_max_loop_single:
  "val pv = t \<Longrightarrow>
   explicit_max_loop sched pv t v m =
     (t, pv\<lparr>val := std_max v t,
           trace := trace pv @ replicate (failed_attempts sched) (CompareExchange t (std_max v t) m m False)
                    @ [CompareExchange t (std_max v t) m m True]\<rparr>)"
proof (induction sched arbitrary: pv)
  case Nil
  then show ?case
    by (subst explicit_max_loop.simps) (simp add: compare_exchange_weak_def failed_attempts_def)
next
  case (Cons b bs)
  show ?case
  proof (cases b)
    case True
    let ?pv' = "pv\<lparr>trace := trace pv @ [CompareExchange t (std_max v t) m m False]\<rparr>"
    have "explicit_max_loop (b # bs) pv t v m = explicit_max_loop bs ?pv' t v m"
      using True Cons.prems by (subst explicit_max_loop.simps) (simp add: compare_exchange_weak_def)
    also have "\<dots> = (t, ?pv'\<lparr>val := std_max v t,
           trace := trace ?pv' @ replicate (failed_attempts bs) (CompareExchange t (std_max v t) m m False)
                    @ [CompareExchange t (std_max v t) m m True]\<rparr>)"
      using Cons.prems by (intro Cons.IH) simp
    finally show ?thesis using True by (simp add: failed_attempts_def)
  next
    case False
    then show ?thesis using Cons.prems
      by (subst explicit_max_loop.simps) (simp add: compare_exchange_weak_def failed_attempts_def)
  qed
qed

lemma explicit_min_loop_single:
  "val pv = t \<Longrightarrow>
   explicit_min_loop sched pv t v m =
     (t, pv\<lparr>val := std_min v t,
           trace := trace pv @ replicate (failed_attempts sched) (CompareExchange t (std_min v t) m m False)
                    @ [CompareExchange t (std_min v t) m m True]\<rparr>)"
proof (induction sched arbitrary: pv)
  case Nil
  then show ?case
    by (subst explicit_min_loop.simps) (simp add: compare_exchange_weak_def failed_attempts_def)
next
  case (Cons b bs)
  show ?case
  proof (cases b)
    case True
    let ?pv' = "pv\<lparr>trace := trace pv @ [CompareExchange t (std_min v t) m m False]\<rparr>"
    have "explicit_min_loop (b # bs) pv t v m = explicit_min_loop bs ?pv' t v m"
      using True Cons.prems by (subst explicit_min_loop.simps) (simp add: compare_exchange_weak_def)
    also have "\<dots> = (t, ?pv'\<lparr>val := std_min v t,
           trace := trace ?pv' @ replicate (failed_attempts bs) (CompareExchange t (std_min v t) m m False)
                    @ [CompareExchange t (std_min v t) m m True]\<rparr>)"
      using Cons.prems by (intro Cons.IH) simp
    finally show ?thesis using True by (simp add: failed_attempts_def)
  next
    case False
    then show ?thesis using Cons.prems
      by (subst explicit_min_loop.simps) (simp add: compare_exchange_weak_def failed_attempts_def)
  qed
qed

lemma improves_iff: "std_max v t \<noteq> t \<longleftrightarrow> t < (v::'a::linorder)"
  by (auto simp: std_max_def)

lemma weak_loop_keep:
  fixes t :: "'a::linorder"
  shows "v \<le> t \<Longrightarrow> weak_loop sched pv t v m = (t, pv)"
  by (subst weak_loop.simps) (auto simp: improves_iff)

lemma weak_loop_single:
  fixes t :: "'a::linorder"
  shows "val pv = t \<Longrightarrow> t < v \<Longrightarrow>
   weak_loop sched pv t v m =
     (t, pv\<lparr>val := v,
           trace := trace pv @ replicate (failed_attempts sched) (CompareExchange t v m m False)
                    @ [CompareExchange t v m m True]\<rparr>)"
proof (induction sched arbitrary: pv)
  case Nil
  then show ?case
    by (subst weak_loop.simps) (simp add: compare_exchange_weak_def failed_attempts_def improves_iff)
next
  case (Cons b bs)
  show ?case
  proof (cases b)
    case True
    let ?pv' = "pv\<lparr>trace := trace pv @ [CompareExchange t v m m False]\<rparr>"
    have "weak_loop (b # bs) pv t v m = weak_loop bs ?pv' t v m"
      using True Cons.prems
      by (subst weak_loop.simps) (simp add: compare_exchange_weak_def improves_iff)
    also have "\<dots> = (t, ?pv'\<lparr>val := v,
           trace := trace ?pv' @ replicate (failed_attempts bs) (CompareExchange t v m m False)
                    @ [CompareExchange t v m m True]\<rparr>)"
      using Cons.prems by (intro Cons.IH) simp_all
    finally show ?thesis using True by (simp add: failed_attempts_def)
  next
    case False
    then show ?thesis using Cons.prems
      by (subst weak_loop.simps) (simp add: compare_exchange_weak_def failed_attempts_def improves_iff)
  qed
qed

lemma smart_loop_keep:
  fixes t :: "'a::linorder"
  shows "v \<le> t \<Longrightarrow> smart_loop sched pv t v m = (False, t, pv)"
  by (subst smart_loop.simps) (auto simp: improves_iff)

lemma smart_loop_single:
  fixes t :: "'a::linorder"
  shows "val pv = t \<Longrightarrow> t < v \<Longrightarrow>
   smart_loop sched pv t v m =
     (True, t, pv\<lparr>val := v,
           trace := trace pv @ replicate (failed_attempts sched) (CompareExchange t v m m False)
                    @ [CompareExchange t v m m True]\<rparr>)"
proof (induction sched arbitrary: pv)
  case Nil
  then show ?case
    by (subst smart_loop.simps) (simp add: compare_exchange_weak_def failed_attempts_def improves_iff)
next
  case (Cons b bs)
  show ?case
  proof (cases b)
    case True
    let ?pv' = "pv\<lparr>trace := trace pv @ [CompareExchange t v m m False]\<rparr>"
    have "smart_loop (b # bs) pv t v m = smart_loop bs ?pv' t v m"
      using True Cons.prems
      by (subst smart_loop.simps) (simp add: compare_exchange_weak_def improves_iff)
    also have "\<dots> = (True, t, ?pv'\<lparr>val := v,
           trace := trace ?pv' @ replicate (failed_attempts bs) (CompareExchange t v m m False)
                    @ [CompareExchange t v m m True]\<rparr>)"
      using Cons.prems by (intro Cons.IH) simp_all
    finally show ?thesis using True by (simp add: failed_attempts_def)
  next
    case False
    then show ?thesis using Cons.prems
      by (subst smart_loop.simps) (simp add: compare_exchange_weak_def failed_attempts_def improves_iff)
  qed
qed

subsection \<open>What each call returns and stores, one thread\<close>

lemma strong_call:
  fixes pv :: "'a::linorder atomic"
  shows "atomic_fetch_max_strong sched pv v m =
    (val pv, pv\<lparr>val := max (val pv) v,
       trace := trace pv @ Load m #
         replicate (failed_attempts sched) (CompareExchange (val pv) (max (val pv) v) m m False)
         @ [CompareExchange (val pv) (max (val pv) v) m m True]\<rparr>)"
proof -
  let ?pv1 = "pv\<lparr>trace := trace pv @ [Load m]\<rparr>"
  have "val ?pv1 = val pv" by simp
  from strong_loop_single [OF this, of sched v m]
  show ?thesis
    by (simp add: atomic_fetch_max_strong_def load_def std_max_max max.commute)
qed

lemma weak_call_keep:
  fixes pv :: "'a::linorder atomic"
  assumes "v \<le> val pv"
  shows "atomic_fetch_max_weak sched pv v m = (val pv, pv\<lparr>trace := trace pv @ [Load m]\<rparr>)"
  using assms by (simp add: atomic_fetch_max_weak_def load_def weak_loop_keep)

lemma weak_call_store:
  fixes pv :: "'a::linorder atomic"
  assumes "val pv < v"
  shows "atomic_fetch_max_weak sched pv v m =
    (val pv, pv\<lparr>val := v,
       trace := trace pv @ Load m #
         replicate (failed_attempts sched) (CompareExchange (val pv) v m m False)
         @ [CompareExchange (val pv) v m m True]\<rparr>)"
proof -
  let ?pv1 = "pv\<lparr>trace := trace pv @ [Load m]\<rparr>"
  have "val ?pv1 = val pv" by simp
  from weak_loop_single [OF this assms, of sched m]
  show ?thesis
    by (simp add: atomic_fetch_max_weak_def load_def)
qed

lemma smart_call_keep:
  fixes pv :: "'a::{linorder,monoid_add} atomic"
  assumes "v \<le> val pv"
  shows "atomic_fetch_max_smart sched pv v m =
    (val pv, pv\<lparr>trace := trace pv @ Load m #
       (if m = memory_order_release \<or> m = memory_order_acq_rel \<or> m = memory_order_seq_cst
        then [FetchAdd 0 m] else [])\<rparr>)"
  using assms by (simp add: atomic_fetch_max_smart_def load_def smart_loop_keep fetch_add_def)

lemma smart_call_store:
  fixes pv :: "'a::{linorder,monoid_add} atomic"
  assumes "val pv < v"
  shows "atomic_fetch_max_smart sched pv v m =
    (val pv, pv\<lparr>val := v,
       trace := trace pv @ Load m #
         replicate (failed_attempts sched) (CompareExchange (val pv) v m m False)
         @ [CompareExchange (val pv) v m m True]\<rparr>)"
proof -
  let ?pv1 = "pv\<lparr>trace := trace pv @ [Load m]\<rparr>"
  have "val ?pv1 = val pv" by simp
  from smart_loop_single [OF this assms, of sched m]
  show ?thesis
    by (simp add: atomic_fetch_max_smart_def load_def)
qed

lemma explicit_max_fallback:
  fixes pv :: "'a::linorder atomic"
  assumes "\<not> is_integral T"
  shows "atomic_fetch_max_explicit T sched pv v m =
    Inr (val pv, pv\<lparr>val := max (val pv) v,
       trace := trace pv @ Load (load_order m) #
         replicate (failed_attempts sched) (CompareExchange (val pv) (max (val pv) v) m m False)
         @ [CompareExchange (val pv) (max (val pv) v) m m True]\<rparr>)"
proof -
  let ?pv1 = "pv\<lparr>trace := trace pv @ [Load (load_order m)]\<rparr>"
  have "val ?pv1 = val pv" by simp
  from explicit_max_loop_single [OF this, of sched v m]
  show ?thesis using assms
    by (simp add: atomic_fetch_max_explicit_def load_def std_max_max max.commute)
qed

lemma explicit_min_fallback:
  fixes pv :: "'a::linorder atomic"
  assumes "\<not> is_integral T"
  shows "atomic_fetch_min_explicit T sched pv v m =
    Inr (val pv, pv\<lparr>val := min (val pv) v,
       trace := trace pv @ Load (load_order m) #
         replicate (failed_attempts sched) (CompareExchange (val pv) (min (val pv) v) m m False)
         @ [CompareExchange (val pv) (min (val pv) v) m m True]\<rparr>)"
proof -
  let ?pv1 = "pv\<lparr>trace := trace pv @ [Load (load_order m)]\<rparr>"
  have "val ?pv1 = val pv" by simp
  from explicit_min_loop_single [OF this, of sched v m]
  show ?thesis using assms
    by (simp add: atomic_fetch_min_explicit_def load_def std_min_min min.commute)
qed

lemma explicit_max_integral:
  assumes "n = 1 \<or> n = 2 \<or> n = 4 \<or> n = 8" "m \<in> defined_orders"
    "int_range sg n (val pv)" "int_range sg n v"
  shows "\<exists>mn rs. atomic_fetch_max_explicit (integral_type sg n) sched pv v m =
    Inr (val pv, pv\<lparr>val := max (val pv) v, trace := trace pv @ [Asm mn rs]\<rparr>)"
proof -
  have T: "is_integral (integral_type sg n)" "size_of (integral_type sg n) = n"
    by (simp_all add: integral_type_def)
  have "atomic_fetch_max_explicit (integral_type sg n) sched pv v m
        = DEF2 ''ld'' ''max'' (integral_type sg n) pv v m"
    using assms(1) T by (auto simp: atomic_fetch_max_explicit_def)
  with DEF2_integral [of "''max''", OF _ assms] show ?thesis by simp
qed

lemma explicit_min_integral:
  assumes "n = 1 \<or> n = 2 \<or> n = 4 \<or> n = 8" "m \<in> defined_orders"
    "int_range sg n (val pv)" "int_range sg n v"
  shows "\<exists>mn rs. atomic_fetch_min_explicit (integral_type sg n) sched pv v m =
    Inr (val pv, pv\<lparr>val := min (val pv) v, trace := trace pv @ [Asm mn rs]\<rparr>)"
proof -
  have T: "is_integral (integral_type sg n)" "size_of (integral_type sg n) = n"
    by (simp_all add: integral_type_def)
  have "atomic_fetch_min_explicit (integral_type sg n) sched pv v m
        = DEF2 ''ld'' ''min'' (integral_type sg n) pv v m"
    using assms(1) T by (auto simp: atomic_fetch_min_explicit_def)
  with DEF2_integral [of "''min''", OF _ assms] show ?thesis by simp
qed

lemma issued_append: "trace pv' = trace pv @ es \<Longrightarrow> issued pv pv' = es"
  by (simp add: issued_def)

section \<open>The ordering-mapping utility\<close>

text \<open>
  C2. \<^verbatim>\<open>load_order\<close> maps release to relaxed and acq_rel to acquire, and returns relaxed,
  acquire, consume and seq_cst unchanged.
\<close>

theorem load_order_six:
  "load_order memory_order_release = memory_order_relaxed \<and>
   load_order memory_order_acq_rel = memory_order_acquire \<and>
   load_order memory_order_relaxed = memory_order_relaxed \<and>
   load_order memory_order_acquire = memory_order_acquire \<and>
   load_order memory_order_consume = memory_order_consume \<and>
   load_order memory_order_seq_cst = memory_order_seq_cst"
  by (simp add: load_order_def)

section \<open>Result of fetch-max\<close>

text \<open>
  C1. In a single-threaded execution a call of fetch-max returns the value the location
  held immediately before the call, and afterwards the location holds the maximum of
  that value and the candidate. This holds for the strong, weak and smart strategies at
  every ordering and under every schedule of spurious failures, for the entry point
  \<^verbatim>\<open>atomic_fetch_max_explicit\<close> on its compare-and-swap path (a type that is not integral)
  and on its instruction path (an integral type of 1, 2, 4 or 8 bytes, signed or
  unsigned, one of the six orderings), and for the hardware strategy where the
  instruction exists.
\<close>

theorem fetch_max_result:
  fixes pv :: "'a::linorder atomic" and ps :: "'b::{linorder,monoid_add} atomic"
    and pn :: "int atomic"
  shows
    "(fst (atomic_fetch_max_strong sched pv v m) = val pv \<and>
      val (snd (atomic_fetch_max_strong sched pv v m)) = max (val pv) v) \<and>
     (fst (atomic_fetch_max_weak sched pv v m) = val pv \<and>
      val (snd (atomic_fetch_max_weak sched pv v m)) = max (val pv) v) \<and>
     (fst (atomic_fetch_max_smart sched ps u m) = val ps \<and>
      val (snd (atomic_fetch_max_smart sched ps u m)) = max (val ps) u) \<and>
     (\<not> is_integral T \<longrightarrow>
        (\<exists>pv'. atomic_fetch_max_explicit T sched pv v m = Inr (val pv, pv') \<and>
               val pv' = max (val pv) v)) \<and>
     ((n = 1 \<or> n = 2 \<or> n = 4 \<or> n = 8) \<and> m \<in> defined_orders \<and>
      int_range sg n (val pn) \<and> int_range sg n w \<longrightarrow>
        (\<exists>pn'. atomic_fetch_max_explicit (integral_type sg n) sched pn w m = Inr (val pn, pn') \<and>
               val pn' = max (val pn) w)) \<and>
     (m \<in> defined_orders \<and> int_range True 4 (val pn) \<and> int_range True 4 w \<longrightarrow>
        (\<exists>pn'. atomic_fetch_max_hardware True pn w m = Inr (val pn, pn') \<and>
               val pn' = max (val pn) w))"
proof -
  have strong: "fst (atomic_fetch_max_strong sched pv v m) = val pv \<and>
      val (snd (atomic_fetch_max_strong sched pv v m)) = max (val pv) v"
    by (simp add: strong_call)
  have weak: "fst (atomic_fetch_max_weak sched pv v m) = val pv \<and>
      val (snd (atomic_fetch_max_weak sched pv v m)) = max (val pv) v"
  proof (cases "v \<le> val pv")
    case True
    then show ?thesis by (simp add: weak_call_keep max_absorb1)
  next
    case False
    then have "val pv < v" by simp
    then show ?thesis by (simp add: weak_call_store max_absorb2)
  qed
  have smart: "fst (atomic_fetch_max_smart sched ps u m) = val ps \<and>
      val (snd (atomic_fetch_max_smart sched ps u m)) = max (val ps) u"
  proof (cases "u \<le> val ps")
    case True
    then show ?thesis by (simp add: smart_call_keep max_absorb1)
  next
    case False
    then have "val ps < u" by simp
    then show ?thesis by (simp add: smart_call_store max_absorb2)
  qed
  have fallback: "\<not> is_integral T \<longrightarrow>
        (\<exists>pv'. atomic_fetch_max_explicit T sched pv v m = Inr (val pv, pv') \<and>
               val pv' = max (val pv) v)"
    by (simp add: explicit_max_fallback)
  have insn: "(n = 1 \<or> n = 2 \<or> n = 4 \<or> n = 8) \<and> m \<in> defined_orders \<and>
      int_range sg n (val pn) \<and> int_range sg n w \<longrightarrow>
        (\<exists>pn'. atomic_fetch_max_explicit (integral_type sg n) sched pn w m = Inr (val pn, pn') \<and>
               val pn' = max (val pn) w)"
  proof (intro impI, elim conjE)
    assume "n = 1 \<or> n = 2 \<or> n = 4 \<or> n = 8" "m \<in> defined_orders"
      "int_range sg n (val pn)" "int_range sg n w"
    from explicit_max_integral [OF this, of sched] obtain mn rs where
      "atomic_fetch_max_explicit (integral_type sg n) sched pn w m =
        Inr (val pn, pn\<lparr>val := max (val pn) w, trace := trace pn @ [Asm mn rs]\<rparr>)"
      by blast
    then show "\<exists>pn'. atomic_fetch_max_explicit (integral_type sg n) sched pn w m = Inr (val pn, pn') \<and>
               val pn' = max (val pn) w"
      by simp
  qed
  have hw: "m \<in> defined_orders \<and> int_range True 4 (val pn) \<and> int_range True 4 w \<longrightarrow>
        (\<exists>pn'. atomic_fetch_max_hardware True pn w m = Inr (val pn, pn') \<and>
               val pn' = max (val pn) w)"
  proof (intro impI, elim conjE)
    assume "m \<in> defined_orders" "int_range True 4 (val pn)" "int_range True 4 w"
    from hardware_arm [OF this] obtain mn where
      "atomic_fetch_max_hardware True pn w m =
        Inr (val pn, pn\<lparr>val := max (val pn) w, trace := trace pn @ [Asm mn ''w'']\<rparr>)"
      by blast
    then show "\<exists>pn'. atomic_fetch_max_hardware True pn w m = Inr (val pn, pn') \<and>
               val pn' = max (val pn) w"
      by simp
  qed
  from strong weak smart fallback insn hw show ?thesis by (intro conjI) (elim conjE, assumption)+
qed

text \<open>
  The example of the specification as an instance: an \<^verbatim>\<open>int32\<close> location holding 5;
  fetch-max with 9, relaxed, returns 5 and leaves 9; fetch-max with 3, relaxed, on the
  location that now holds 9 returns 9 and leaves 9. The instance is taken at the entry
  point (signed, 4 bytes), at the hardware strategy, at the strong strategy, and at the
  entry point for a type that is not integral.
\<close>

theorem fetch_max_result_witness:
  "(\<exists>p1. atomic_fetch_max_explicit (integral_type True 4) []
            \<lparr>val = 5, trace = []\<rparr> 9 memory_order_relaxed = Inr (5, p1) \<and> val p1 = 9) \<and>
   (\<exists>p2. atomic_fetch_max_explicit (integral_type True 4) []
            \<lparr>val = 9, trace = [Asm ''ldsmax'' ''w'']\<rparr> 3 memory_order_relaxed = Inr (9, p2) \<and>
          val p2 = 9) \<and>
   (\<exists>p3. atomic_fetch_max_hardware True \<lparr>val = 5, trace = []\<rparr> 9 memory_order_relaxed
            = Inr (5, p3) \<and> val p3 = 9) \<and>
   (\<exists>p4. atomic_fetch_max_hardware True \<lparr>val = 9, trace = [Asm ''ldsmax'' ''w'']\<rparr> 3
            memory_order_relaxed = Inr (9, p4) \<and> val p4 = 9) \<and>
   fst (atomic_fetch_max_strong [] \<lparr>val = 5::int, trace = []\<rparr> 9 memory_order_relaxed) = 5 \<and>
   val (snd (atomic_fetch_max_strong [] \<lparr>val = 5::int, trace = []\<rparr> 9 memory_order_relaxed)) = 9 \<and>
   fst (atomic_fetch_max_strong [] \<lparr>val = 9::int, trace = []\<rparr> 3 memory_order_relaxed) = 9 \<and>
   val (snd (atomic_fetch_max_strong [] \<lparr>val = 9::int, trace = []\<rparr> 3 memory_order_relaxed)) = 9 \<and>
   (\<exists>p5. atomic_fetch_max_explicit
            \<lparr>is_integral = False, is_signed = True, size_of = 4, to_bits = nat, from_bits = int\<rparr>
            [True] \<lparr>val = 5, trace = []\<rparr> 9 memory_order_relaxed = Inr (5, p5) \<and> val p5 = 9)"
proof -
  have r: "int_range True 4 5" "int_range True 4 9" "int_range True 4 3"
    by (simp_all add: int_range_def)
  have o: "memory_order_relaxed \<in> defined_orders" by (simp add: defined_orders_def)
  note a = fetch_max_result [where pv = "\<lparr>val = 5::int, trace = []\<rparr>" and v = 9
      and pn = "\<lparr>val = 5, trace = []\<rparr>" and w = 9 and n = 4 and sg = True
      and m = memory_order_relaxed and sched = "[]" and ps = "\<lparr>val = 5::int, trace = []\<rparr>" and u = 9
      and T = "integral_type True 4"]
  note b = fetch_max_result [where pv = "\<lparr>val = 9::int, trace = []\<rparr>" and v = 3
      and pn = "\<lparr>val = 9, trace = [Asm ''ldsmax'' ''w'']\<rparr>" and w = 3 and n = 4 and sg = True
      and m = memory_order_relaxed and sched = "[]" and ps = "\<lparr>val = 5::int, trace = []\<rparr>" and u = 9
      and T = "integral_type True 4"]
  note c = fetch_max_result [where pv = "\<lparr>val = 5::int, trace = []\<rparr>" and v = 9
      and pn = "\<lparr>val = 5, trace = []\<rparr>" and w = 9 and n = 4 and sg = True
      and m = memory_order_relaxed and sched = "[True]" and ps = "\<lparr>val = 5::int, trace = []\<rparr>" and u = 9
      and T = "\<lparr>is_integral = False, is_signed = True, size_of = 4, to_bits = nat, from_bits = int\<rparr>"]
  from a b c r o show ?thesis by simp
qed

section \<open>The ordering given to the initial load\<close>

text \<open>
  The compare-and-swap path of the entry points loads with \<^verbatim>\<open>load_order(m)\<close>, which is
  never release and never acq_rel. The strategies of \<^verbatim>\<open>fetch_max.hpp\<close> load with the
  ordering of the caller, as it is.
\<close>

lemma load_order_legal:
  "load_order m \<noteq> memory_order_release \<and> load_order m \<noteq> memory_order_acq_rel"
  by (simp add: load_order_def)

lemma explicit_fallback_load:
  fixes pv :: "'a::linorder atomic"
  assumes "\<not> is_integral T"
  shows "\<exists>pv' r es. atomic_fetch_max_explicit T sched pv v m = Inr (r, pv') \<and>
           issued pv pv' = Load (load_order m) # es"
  using assms by (simp add: explicit_max_fallback issued_def)

lemma strategies_load_as_given:
  fixes pv :: "'a::linorder atomic" and ps :: "'b::{linorder,monoid_add} atomic"
  shows "hd (issued pv (snd (atomic_fetch_max_strong sched pv v m))) = Load m"
    and "hd (issued pv (snd (atomic_fetch_max_weak sched pv v m))) = Load m"
    and "hd (issued ps (snd (atomic_fetch_max_smart sched ps u m))) = Load m"
proof -
  show "hd (issued pv (snd (atomic_fetch_max_strong sched pv v m))) = Load m"
    by (simp add: strong_call issued_def)
  show "hd (issued pv (snd (atomic_fetch_max_weak sched pv v m))) = Load m"
    by (cases "v \<le> val pv") (simp_all add: weak_call_keep weak_call_store issued_def)
  show "hd (issued ps (snd (atomic_fetch_max_smart sched ps u m))) = Load m"
    by (cases "u \<le> val ps") (simp_all add: smart_call_keep smart_call_store issued_def)
qed

text \<open>
  C3. Every compare-and-swap retry loop of fetch-max issues its initial load with the
  downgraded ordering \<^verbatim>\<open>load_order(m)\<close>, never with release or acq_rel. The strong
  strategy does not: called with release, the first operation it issues is a load with
  release, where \<^verbatim>\<open>load_order\<close> would have given relaxed.
\<close>

theorem strong_load_not_downgraded:
  "issued \<lparr>val = 5::int, trace = []\<rparr>
     (snd (atomic_fetch_max_strong [] \<lparr>val = 5, trace = []\<rparr> 9 memory_order_release))
   = [Load memory_order_release,
      CompareExchange 5 9 memory_order_release memory_order_release True] \<and>
   load_order memory_order_release = memory_order_relaxed"
  by (simp add: strong_call issued_def failed_attempts_def load_order_def)

section \<open>The weak strategy when the candidate does not improve\<close>

text \<open>
  C4. When the candidate is not greater than the current value, a call of the weak
  strategy issues a load and nothing else (no compare-and-swap is attempted, nothing is
  written), leaves the value of the location unchanged and returns the current value.
\<close>

theorem weak_no_op:
  fixes pv :: "'a::linorder atomic"
  assumes "v \<le> val pv"
  shows "fst (atomic_fetch_max_weak sched pv v m) = val pv \<and>
         val (snd (atomic_fetch_max_weak sched pv v m)) = val pv \<and>
         issued pv (snd (atomic_fetch_max_weak sched pv v m)) = [Load m]"
  using assms by (simp add: weak_call_keep issued_def)

theorem weak_no_op_witness:
  "(3::int) \<le> val \<lparr>val = 9, trace = []\<rparr> \<and>
   fst (atomic_fetch_max_weak [True] \<lparr>val = 9::int, trace = []\<rparr> 3 memory_order_acq_rel) = 9 \<and>
   val (snd (atomic_fetch_max_weak [True] \<lparr>val = 9::int, trace = []\<rparr> 3 memory_order_acq_rel)) = 9 \<and>
   issued \<lparr>val = 9::int, trace = []\<rparr>
     (snd (atomic_fetch_max_weak [True] \<lparr>val = 9::int, trace = []\<rparr> 3 memory_order_acq_rel))
     = [Load memory_order_acq_rel]"
proof -
  have h: "(3::int) \<le> val \<lparr>val = 9, trace = []\<rparr>" by simp
  from weak_no_op [OF h, of "[True]" memory_order_acq_rel] h show ?thesis by simp
qed

section \<open>The dummy write of the smart strategy\<close>

text \<open>
  C5. The loop of the smart strategy ends through its condition, the candidate not
  improving on the current value, exactly when the candidate is not greater than the
  value of the location; otherwise it is left by the return after a successful
  compare-and-swap. When it ends through its condition and the ordering is release,
  acq_rel or seq_cst, the call issues, after its load, exactly one operation, a
  fetch-add of zero with that ordering, and no compare-and-swap; the value of the
  location is unchanged. When the loop is left after a successful compare-and-swap, or
  the ordering is relaxed, acquire or consume, no fetch-add is issued.
\<close>

theorem smart_fence_repair:
  fixes pv :: "'a::{linorder,monoid_add} atomic"
  shows
    "(let returned = fst (smart_loop sched (snd (load pv m)) (fst (load pv m)) v m);
          pv' = snd (atomic_fetch_max_smart sched pv v m)
      in (returned \<longleftrightarrow> val pv < v) \<and>
         (\<not> returned \<and>
          (m = memory_order_release \<or> m = memory_order_acq_rel \<or> m = memory_order_seq_cst) \<longrightarrow>
            issued pv pv' = [Load m, FetchAdd 0 m] \<and> val pv' = val pv) \<and>
         (returned \<or>
          m = memory_order_relaxed \<or> m = memory_order_acquire \<or> m = memory_order_consume \<longrightarrow>
            filter is_fetch_add (issued pv pv') = []))"
proof (cases "v \<le> val pv")
  case True
  have l: "smart_loop sched (snd (load pv m)) (fst (load pv m)) v m
           = (False, val pv, snd (load pv m))"
    using True by (simp add: load_def smart_loop_keep)
  show ?thesis
    using True unfolding Let_def l
    by (auto simp: smart_call_keep issued_def)
next
  case False
  then have lt: "val pv < v" by simp
  have "val (snd (load pv m)) = fst (load pv m)" by (simp add: load_def)
  from smart_loop_single [OF this, of v sched m] lt
  have l: "fst (smart_loop sched (snd (load pv m)) (fst (load pv m)) v m) = True"
    by (simp add: load_def)
  have f: "filter is_fetch_add (replicate k (CompareExchange a b c d e)) = []" for k a b c d e
    by (induction k) simp_all
  show ?thesis
    using lt unfolding Let_def l
    by (simp add: smart_call_store issued_def f)
qed

theorem smart_fence_repair_witness:
  "issued \<lparr>val = 9::int, trace = []\<rparr>
     (snd (atomic_fetch_max_smart [True] \<lparr>val = 9, trace = []\<rparr> 3 memory_order_release))
     = [Load memory_order_release, FetchAdd 0 memory_order_release] \<and>
   val (snd (atomic_fetch_max_smart [True] \<lparr>val = 9::int, trace = []\<rparr> 3 memory_order_release)) = 9 \<and>
   filter is_fetch_add (issued \<lparr>val = 9::int, trace = []\<rparr>
     (snd (atomic_fetch_max_smart [True] \<lparr>val = 9, trace = []\<rparr> 3 memory_order_acquire))) = [] \<and>
   filter is_fetch_add (issued \<lparr>val = 5::int, trace = []\<rparr>
     (snd (atomic_fetch_max_smart [True] \<lparr>val = 5, trace = []\<rparr> 9 memory_order_release))) = []"
proof -
  note a = smart_fence_repair [of "[True]" "\<lparr>val = 9::int, trace = []\<rparr>" memory_order_release 3]
  note b = smart_fence_repair [of "[True]" "\<lparr>val = 9::int, trace = []\<rparr>" memory_order_acquire 3]
  note c = smart_fence_repair [of "[True]" "\<lparr>val = 5::int, trace = []\<rparr>" memory_order_release 9]
  from a b c show ?thesis by (simp add: Let_def)
qed

section \<open>The instruction path against the strong strategy\<close>

text \<open>
  C6. For every integral type of 1, 2, 4 or 8 bytes, signed or unsigned, every initial
  value and candidate of that type and each of the six orderings, the entry point
  \<^verbatim>\<open>atomic_fetch_max_explicit\<close> returns, and its pair of returned value and final value of
  the location is the pair of the strong strategy, whatever spurious failures the
  strong strategy meets.
\<close>

theorem hardware_generic_equivalence:
  assumes "n = 1 \<or> n = 2 \<or> n = 4 \<or> n = 8" and "m \<in> defined_orders"
    and "int_range sg n (val pv)" and "int_range sg n v"
  shows "map_sum id outcome (atomic_fetch_max_explicit (integral_type sg n) sched pv v m)
         = Inr (outcome (atomic_fetch_max_strong sched' pv v m))"
proof -
  from explicit_max_integral [OF assms, of sched] obtain mn rs where
    "atomic_fetch_max_explicit (integral_type sg n) sched pv v m =
       Inr (val pv, pv\<lparr>val := max (val pv) v, trace := trace pv @ [Asm mn rs]\<rparr>)"
    by blast
  then show ?thesis by (simp add: outcome_def strong_call)
qed

theorem hardware_generic_equivalence_witness:
  "map_sum id outcome (atomic_fetch_max_explicit (integral_type False 1) []
      \<lparr>val = 200, trace = []\<rparr> 100 memory_order_acq_rel)
   = Inr (outcome (atomic_fetch_max_strong [True, True] \<lparr>val = 200, trace = []\<rparr> 100
            memory_order_acq_rel)) \<and>
   outcome (atomic_fetch_max_strong [True, True] \<lparr>val = 200::int, trace = []\<rparr> 100
            memory_order_acq_rel) = (200, 200) \<and>
   map_sum id outcome (atomic_fetch_max_explicit (integral_type True 1) []
      \<lparr>val = - 56, trace = []\<rparr> 100 memory_order_acq_rel)
   = Inr (outcome (atomic_fetch_max_strong [] \<lparr>val = - 56, trace = []\<rparr> 100
            memory_order_acq_rel)) \<and>
   outcome (atomic_fetch_max_strong [] \<lparr>val = - 56::int, trace = []\<rparr> 100
            memory_order_acq_rel) = (- 56, 100)"
proof -
  have n: "(1::nat) = 1 \<or> (1::nat) = 2 \<or> (1::nat) = 4 \<or> (1::nat) = 8" by simp
  have o: "memory_order_acq_rel \<in> defined_orders" by (simp add: defined_orders_def)
  have r: "int_range False 1 (val \<lparr>val = 200, trace = []\<rparr>)" "int_range False 1 100"
    "int_range True 1 (val \<lparr>val = - 56, trace = []\<rparr>)" "int_range True 1 100"
    by (simp_all add: int_range_def)
  note a = hardware_generic_equivalence [OF n o r(1) r(2), of "[]" "[True, True]"]
  note b = hardware_generic_equivalence [OF n o r(3) r(4), of "[]" "[]"]
  have c: "outcome (atomic_fetch_max_strong [True, True] \<lparr>val = 200::int, trace = []\<rparr> 100
            memory_order_acq_rel) = (200, 200)"
    "outcome (atomic_fetch_max_strong [] \<lparr>val = - 56::int, trace = []\<rparr> 100
            memory_order_acq_rel) = (- 56, 100)"
    by (simp_all add: strong_call outcome_def)
  from a b c show ?thesis by simp
qed

section \<open>Contract violations\<close>

text \<open>
  C8, as stated: a contract violation ends the process in a failed assertion, also in
  the hardware strategy compiled for an architecture without the instruction. The
  hardware strategy has no assertion: without the instruction its body is
  \<^verbatim>\<open>__builtin_unreachable()\<close>, and a call is undefined behaviour, not a failed assertion.
\<close>

theorem hardware_strategy_no_assertion:
  "atomic_fetch_max_hardware False \<lparr>val = 5, trace = []\<rparr> 9 memory_order_relaxed
     \<noteq> Inl AssertionFailed"
  by (simp add: atomic_fetch_max_hardware_def)

text \<open>
  C8, amended. The entry points \<^verbatim>\<open>atomic_fetch_max_explicit\<close> and
  \<^verbatim>\<open>atomic_fetch_min_explicit\<close>, called for an integral type whose size is not 1, 2, 4 or 8
  bytes, or for an integral type of such a size with an ordering that is none of the
  six, end in a failed assertion and return no value.
\<close>

theorem contract_violation_asserts:
  fixes T :: "'a::ord ctype"
  shows
    "(is_integral T \<and> size_of T \<notin> {1, 2, 4, 8} \<longrightarrow>
        atomic_fetch_max_explicit T sched pv v m = Inl AssertionFailed \<and>
        atomic_fetch_min_explicit T sched pv v m = Inl AssertionFailed) \<and>
     (is_integral T \<and> size_of T \<in> {1, 2, 4, 8} \<and> m \<notin> defined_orders \<longrightarrow>
        atomic_fetch_max_explicit T sched pv v m = Inl AssertionFailed \<and>
        atomic_fetch_min_explicit T sched pv v m = Inl AssertionFailed)"
proof (intro conjI impI; elim conjE)
  assume "is_integral T" "size_of T \<notin> {1, 2, 4, 8}"
  then show "atomic_fetch_max_explicit T sched pv v m = Inl AssertionFailed"
    by (simp add: atomic_fetch_max_explicit_def)
next
  assume "is_integral T" "size_of T \<notin> {1, 2, 4, 8}"
  then show "atomic_fetch_min_explicit T sched pv v m = Inl AssertionFailed"
    by (simp add: atomic_fetch_min_explicit_def)
next
  assume a: "is_integral T" "size_of T \<in> {1, 2, 4, 8}" "m \<notin> defined_orders"
  then have "DEF0 opn sz rs T pv v m = Inl AssertionFailed" for opn sz rs
    by (simp add: DEF0_def defined_orders_def)
  then have "DEF2 ls opn T pv v m = Inl AssertionFailed" for ls opn
    using a(2) by (auto simp: DEF2_def DEF1_def)
  then show "atomic_fetch_max_explicit T sched pv v m = Inl AssertionFailed"
    using a by (auto simp: atomic_fetch_max_explicit_def)
next
  assume a: "is_integral T" "size_of T \<in> {1, 2, 4, 8}" "m \<notin> defined_orders"
  then have "DEF0 opn sz rs T pv v m = Inl AssertionFailed" for opn sz rs
    by (simp add: DEF0_def defined_orders_def)
  then have "DEF2 ls opn T pv v m = Inl AssertionFailed" for ls opn
    using a(2) by (auto simp: DEF2_def DEF1_def)
  then show "atomic_fetch_min_explicit T sched pv v m = Inl AssertionFailed"
    using a by (auto simp: atomic_fetch_min_explicit_def)
qed

theorem contract_violation_asserts_witness:
  "atomic_fetch_max_explicit (integral_type True 16) [] \<lparr>val = 5, trace = []\<rparr> 9
     memory_order_relaxed = Inl AssertionFailed \<and>
   atomic_fetch_min_explicit (integral_type True 16) [] \<lparr>val = 5, trace = []\<rparr> 9
     memory_order_relaxed = Inl AssertionFailed \<and>
   atomic_fetch_max_explicit (integral_type False 2) [] \<lparr>val = 5, trace = []\<rparr> 9
     (memory_order_other 6) = Inl AssertionFailed \<and>
   atomic_fetch_min_explicit (integral_type False 2) [] \<lparr>val = 5, trace = []\<rparr> 9
     (memory_order_other 6) = Inl AssertionFailed"
proof -
  have T: "is_integral (integral_type True 16)" "size_of (integral_type True 16) \<notin> {1, 2, 4, 8}"
    "is_integral (integral_type False 2)" "size_of (integral_type False 2) \<in> {1, 2, 4, 8}"
    "memory_order_other 6 \<notin> defined_orders"
    by (simp_all add: integral_type_def defined_orders_def)
  have a: "atomic_fetch_max_explicit (integral_type True 16) [] \<lparr>val = 5, trace = []\<rparr> 9
       memory_order_relaxed = Inl AssertionFailed \<and>
     atomic_fetch_min_explicit (integral_type True 16) [] \<lparr>val = 5, trace = []\<rparr> 9
       memory_order_relaxed = Inl AssertionFailed"
    using contract_violation_asserts [of "integral_type True 16" "[]"
      "\<lparr>val = 5, trace = []\<rparr>" 9 memory_order_relaxed] T(1,2)
    by blast
  have b: "atomic_fetch_max_explicit (integral_type False 2) [] \<lparr>val = 5, trace = []\<rparr> 9
       (memory_order_other 6) = Inl AssertionFailed \<and>
     atomic_fetch_min_explicit (integral_type False 2) [] \<lparr>val = 5, trace = []\<rparr> 9
       (memory_order_other 6) = Inl AssertionFailed"
    using contract_violation_asserts [of "integral_type False 2" "[]"
      "\<lparr>val = 5, trace = []\<rparr>" 9 "memory_order_other 6"] T(3,4,5)
    by blast
  from a b show ?thesis by blast
qed

section \<open>Result of fetch-min\<close>

text \<open>
  C9. In a single-threaded execution a call of \<^verbatim>\<open>atomic_fetch_min_explicit\<close> returns the
  value the location held immediately before the call, and afterwards the location
  holds the smaller of that value and the candidate: on the compare-and-swap path (a
  type that is not integral) at every ordering and under every schedule of spurious
  failures, and on the instruction path for an integral type of 1, 2, 4 or 8 bytes,
  signed or unsigned, and each of the six orderings.
\<close>

theorem fetch_min_result:
  fixes pv :: "'a::linorder atomic" and pn :: "int atomic"
  shows
    "(\<not> is_integral T \<longrightarrow>
        (\<exists>pv'. atomic_fetch_min_explicit T sched pv v m = Inr (val pv, pv') \<and>
               val pv' = min (val pv) v)) \<and>
     ((n = 1 \<or> n = 2 \<or> n = 4 \<or> n = 8) \<and> m \<in> defined_orders \<and>
      int_range sg n (val pn) \<and> int_range sg n w \<longrightarrow>
        (\<exists>pn'. atomic_fetch_min_explicit (integral_type sg n) sched pn w m = Inr (val pn, pn') \<and>
               val pn' = min (val pn) w))"
proof (intro conjI impI; (elim conjE)?)
  assume "\<not> is_integral T"
  then show "\<exists>pv'. atomic_fetch_min_explicit T sched pv v m = Inr (val pv, pv') \<and>
               val pv' = min (val pv) v"
    by (simp add: explicit_min_fallback)
next
  assume "n = 1 \<or> n = 2 \<or> n = 4 \<or> n = 8" "m \<in> defined_orders"
    "int_range sg n (val pn)" "int_range sg n w"
  from explicit_min_integral [OF this, of sched] obtain mn rs where
    "atomic_fetch_min_explicit (integral_type sg n) sched pn w m =
       Inr (val pn, pn\<lparr>val := min (val pn) w, trace := trace pn @ [Asm mn rs]\<rparr>)"
    by blast
  then show "\<exists>pn'. atomic_fetch_min_explicit (integral_type sg n) sched pn w m = Inr (val pn, pn') \<and>
               val pn' = min (val pn) w"
    by simp
qed

theorem fetch_min_result_witness:
  "(\<exists>p1. atomic_fetch_min_explicit (integral_type True 2) []
            \<lparr>val = 5, trace = []\<rparr> (- 7) memory_order_seq_cst = Inr (5, p1) \<and> val p1 = - 7) \<and>
   (\<exists>p2. atomic_fetch_min_explicit
            \<lparr>is_integral = False, is_signed = True, size_of = 4, to_bits = nat, from_bits = int\<rparr>
            [True] \<lparr>val = 5, trace = []\<rparr> 9 memory_order_release = Inr (5, p2) \<and> val p2 = 5)"
proof -
  have r: "int_range True 2 5" "int_range True 2 (- 7)"
    by (simp_all add: int_range_def)
  have o: "memory_order_seq_cst \<in> defined_orders" by (simp add: defined_orders_def)
  note a = fetch_min_result [where pn = "\<lparr>val = 5, trace = []\<rparr>" and w = "- 7" and n = 2
      and sg = True and m = memory_order_seq_cst and sched = "[]"
      and T = "integral_type True 2" and pv = "\<lparr>val = 5::int, trace = []\<rparr>" and v = 9]
  note b = fetch_min_result [where pn = "\<lparr>val = 5, trace = []\<rparr>" and w = "- 7" and n = 2
      and sg = True and m = memory_order_release and sched = "[True]"
      and T = "\<lparr>is_integral = False, is_signed = True, size_of = 4, to_bits = nat, from_bits = int\<rparr>"
      and pv = "\<lparr>val = 5::int, trace = []\<rparr>" and v = 9]
  from a b r o show ?thesis by simp
qed

section \<open>The three compare-and-swap strategies agree\<close>

text \<open>
  C10. In a single-threaded execution the strong, weak and smart strategies return the
  same value and leave the location holding the same value, for every initial value,
  candidate and ordering, whatever spurious failures each of them meets.
\<close>

theorem strategies_agree:
  fixes pv :: "'a::{linorder,monoid_add} atomic"
  shows "outcome (atomic_fetch_max_strong s1 pv v m) = outcome (atomic_fetch_max_weak s2 pv v m) \<and>
         outcome (atomic_fetch_max_weak s2 pv v m) = outcome (atomic_fetch_max_smart s3 pv v m)"
proof (cases "v \<le> val pv")
  case True
  then show ?thesis
    by (simp add: outcome_def strong_call weak_call_keep smart_call_keep max_absorb1)
next
  case False
  then have "val pv < v" by simp
  then show ?thesis
    by (simp add: outcome_def strong_call weak_call_store smart_call_store max_absorb2)
qed

section \<open>Repeated calls\<close>

lemma hardware_not_returning:
  assumes "\<not> ARM_ARCH_8A \<or> m \<notin> defined_orders"
  shows "atomic_fetch_max_hardware ARM_ARCH_8A pv v m = Inl Unreachable"
  using assms by (auto simp: atomic_fetch_max_hardware_def defined_orders_def)

lemma atomic_fetch_max_step:
  assumes "int_range True 4 (val pv)" "int_range True 4 v"
    and "atomic_fetch_max ARM_ARCH_8A impl sched pv v m = Inr (r, pv')"
  shows "val pv' = max (val pv) v"
proof (cases impl)
  case strong
  then show ?thesis using assms(3) by (auto simp: atomic_fetch_max_def strong_call)
next
  case weak
  show ?thesis
  proof (cases "v \<le> val pv")
    case True
    then show ?thesis using assms(3) weak
      by (auto simp: atomic_fetch_max_def weak_call_keep max_absorb1)
  next
    case False
    then have "val pv < v" by simp
    then show ?thesis using assms(3) weak
      by (auto simp: atomic_fetch_max_def weak_call_store max_absorb2)
  qed
next
  case smart
  show ?thesis
  proof (cases "v \<le> val pv")
    case True
    then show ?thesis using assms(3) smart
      by (auto simp: atomic_fetch_max_def smart_call_keep max_absorb1)
  next
    case False
    then have "val pv < v" by simp
    then show ?thesis using assms(3) smart
      by (auto simp: atomic_fetch_max_def smart_call_store max_absorb2)
  qed
next
  case hardware
  then have h: "atomic_fetch_max_hardware ARM_ARCH_8A pv v m = Inr (r, pv')"
    using assms(3) by (simp add: atomic_fetch_max_def)
  then have "ARM_ARCH_8A" "m \<in> defined_orders"
    using hardware_not_returning [of ARM_ARCH_8A m pv v] by auto
  from hardware_arm [OF this(2) assms(1,2)] h this(1) show ?thesis by auto
qed

lemma atomic_fetch_max_returns:
  assumes "int_range True 4 (val pv)" "int_range True 4 v"
    and "impl = hardware \<longrightarrow> ARM_ARCH_8A \<and> m \<in> defined_orders"
  shows "\<exists>r pv'. atomic_fetch_max ARM_ARCH_8A impl sched pv v m = Inr (r, pv')"
proof (cases impl)
  case hardware
  then have "ARM_ARCH_8A" "m \<in> defined_orders" using assms(3) by simp_all
  from hardware_arm [OF this(2) assms(1,2)] this(1) hardware show ?thesis
    by (auto simp: atomic_fetch_max_def)
qed (auto simp: atomic_fetch_max_def intro: prod.exhaust)

lemma int_range_max: "int_range sg n x \<Longrightarrow> int_range sg n y \<Longrightarrow> int_range sg n (max x y)"
  by (simp add: max_def)

lemma fetch_max_calls_monotone:
  assumes "int_range True 4 (val pv)" "\<forall>c\<in>set cs. int_range True 4 (candidate c)"
  shows "\<forall>i < length (fetch_max_calls ARM_ARCH_8A cs pv).
           (val pv # fetch_max_calls ARM_ARCH_8A cs pv) ! i \<le> fetch_max_calls ARM_ARCH_8A cs pv ! i"
  using assms
proof (induction cs arbitrary: pv)
  case Nil
  then show ?case by simp
next
  case (Cons c cs)
  obtain impl sched v m where c: "c = (impl, sched, v, m)" by (cases c) auto
  have v: "int_range True 4 v" using Cons.prems(2) by (simp add: c candidate_def)
  show ?case
  proof (cases "atomic_fetch_max ARM_ARCH_8A impl sched pv v m")
    case (Inl e)
    then show ?thesis by (simp add: c)
  next
    case (Inr res)
    obtain r pv' where res: "res = (r, pv')" by (cases res) auto
    have eq: "val pv' = max (val pv) v"
      using atomic_fetch_max_step [OF Cons.prems(1) v] Inr res by simp
    then have r': "int_range True 4 (val pv')"
      using int_range_max [OF Cons.prems(1) v] by simp
    have calls: "fetch_max_calls ARM_ARCH_8A (c # cs) pv
                 = val pv' # fetch_max_calls ARM_ARCH_8A cs pv'"
      by (simp add: c Inr res)
    have IH: "\<forall>i < length (fetch_max_calls ARM_ARCH_8A cs pv').
           (val pv' # fetch_max_calls ARM_ARCH_8A cs pv') ! i
             \<le> fetch_max_calls ARM_ARCH_8A cs pv' ! i"
      using Cons.IH [OF r'] Cons.prems(2) by simp
    show ?thesis
      unfolding calls
    proof (intro allI impI)
      fix i
      assume i: "i < length (val pv' # fetch_max_calls ARM_ARCH_8A cs pv')"
      show "(val pv # val pv' # fetch_max_calls ARM_ARCH_8A cs pv') ! i
            \<le> (val pv' # fetch_max_calls ARM_ARCH_8A cs pv') ! i"
      proof (cases i)
        case 0
        then show ?thesis by (simp add: eq)
      next
        case (Suc j)
        then show ?thesis using IH i by simp
      qed
    qed
  qed
qed

lemma fetch_max_calls_length:
  assumes "int_range True 4 (val pv)" "\<forall>c\<in>set cs. int_range True 4 (candidate c)"
    and "\<forall>c\<in>set cs. strategy c = hardware \<longrightarrow> ARM_ARCH_8A \<and> order_of c \<in> defined_orders"
  shows "length (fetch_max_calls ARM_ARCH_8A cs pv) = length cs"
  using assms
proof (induction cs arbitrary: pv)
  case Nil
  then show ?case by simp
next
  case (Cons c cs)
  obtain impl sched v m where c: "c = (impl, sched, v, m)" by (cases c) auto
  have v: "int_range True 4 v" using Cons.prems(2) by (simp add: c candidate_def)
  have "impl = hardware \<longrightarrow> ARM_ARCH_8A \<and> m \<in> defined_orders"
    using Cons.prems(3) by (simp add: c strategy_def order_of_def)
  from atomic_fetch_max_returns [OF Cons.prems(1) v this]
  obtain r pv' where res: "atomic_fetch_max ARM_ARCH_8A impl sched pv v m = Inr (r, pv')"
    by blast
  have "val pv' = max (val pv) v"
    using atomic_fetch_max_step [OF Cons.prems(1) v res] .
  then have "int_range True 4 (val pv')"
    using int_range_max [OF Cons.prems(1) v] by simp
  moreover have "\<forall>c\<in>set cs. int_range True 4 (candidate c)"
    "\<forall>c\<in>set cs. strategy c = hardware \<longrightarrow> ARM_ARCH_8A \<and> order_of c \<in> defined_orders"
    using Cons.prems(2,3) by simp_all
  ultimately have "length (fetch_max_calls ARM_ARCH_8A cs pv') = length cs"
    by (rule Cons.IH)
  then show ?case by (simp add: c res)
qed

lemma strategies_never_decrease:
  fixes pq :: "'a::linorder atomic" and ps :: "'b::{linorder,monoid_add} atomic"
  shows "val pq \<le> val (snd (atomic_fetch_max_strong s pq u m))"
    and "val pq \<le> val (snd (atomic_fetch_max_weak s pq u m))"
    and "val ps \<le> val (snd (atomic_fetch_max_smart s ps w m))"
proof -
  show "val pq \<le> val (snd (atomic_fetch_max_strong s pq u m))"
    by (simp add: strong_call)
  show "val pq \<le> val (snd (atomic_fetch_max_weak s pq u m))"
    by (cases "u \<le> val pq") (simp_all add: weak_call_keep weak_call_store)
  show "val ps \<le> val (snd (atomic_fetch_max_smart s ps w m))"
    by (cases "w \<le> val ps") (simp_all add: smart_call_keep smart_call_store)
qed

text \<open>
  C7. Repeated fetch-max never decreases the stored value. On an \<^verbatim>\<open>int\<close> location, for
  any initial value and any finite sequence of calls, each by any of the four
  strategies, at any ordering and under any schedule of spurious failures, with
  candidates that form a non-increasing sequence, the value of the location after each
  call is greater than or equal to its value before that call; and every call returns,
  so that the sequence runs to its end, unless it is a call of the hardware strategy
  without the instruction or with an ordering that is none of the six. On a location of
  any ordered type, whatever state earlier calls have left it in, a call of the strong,
  the weak or the smart strategy leaves a value greater than or equal to the one it
  found.
\<close>

theorem repeated_fetch_max_never_decreases:
  fixes pq :: "'a::linorder atomic" and ps :: "'b::{linorder,monoid_add} atomic"
  assumes "int_range True 4 (val pv)" and "\<forall>c\<in>set cs. int_range True 4 (candidate c)"
    and "sorted_wrt (\<ge>) (map candidate cs)"
  shows "(\<forall>i < length (fetch_max_calls ARM_ARCH_8A cs pv).
            (val pv # fetch_max_calls ARM_ARCH_8A cs pv) ! i
              \<le> fetch_max_calls ARM_ARCH_8A cs pv ! i) \<and>
         ((\<forall>c\<in>set cs. strategy c = hardware \<longrightarrow>
              ARM_ARCH_8A \<and> order_of c \<in> defined_orders) \<longrightarrow>
            length (fetch_max_calls ARM_ARCH_8A cs pv) = length cs) \<and>
         val pq \<le> val (snd (atomic_fetch_max_strong s pq u m)) \<and>
         val pq \<le> val (snd (atomic_fetch_max_weak s pq u m)) \<and>
         val ps \<le> val (snd (atomic_fetch_max_smart s ps w m))"
  using fetch_max_calls_monotone [OF assms(1,2)] fetch_max_calls_length [OF assms(1,2)]
    strategies_never_decrease(1) [of pq s u m] strategies_never_decrease(2) [of pq s u m]
    strategies_never_decrease(3) [of ps s w m]
  by blast

theorem repeated_fetch_max_never_decreases_witness:
  "fetch_max_calls True
     [(strong, [True], 9, memory_order_relaxed), (weak, [], 7, memory_order_release),
      (hardware, [], 7, memory_order_seq_cst), (smart, [True, True], 3, memory_order_acq_rel)]
     \<lparr>val = 5, trace = []\<rparr> = [9, 9, 9, 9] \<and>
   length (fetch_max_calls True
     [(strong, [True], 9, memory_order_relaxed), (weak, [], 7, memory_order_release),
      (hardware, [], 7, memory_order_seq_cst), (smart, [True, True], 3, memory_order_acq_rel)]
     \<lparr>val = 5, trace = []\<rparr>) = 4 \<and>
   ([5, 9, 9, 9, 9] :: int list) ! 0 \<le> [9, 9, 9, 9] ! 0 \<and>
   ([5, 9, 9, 9, 9] :: int list) ! 1 \<le> [9, 9, 9, 9] ! 1 \<and>
   ([5, 9, 9, 9, 9] :: int list) ! 2 \<le> [9, 9, 9, 9] ! 2 \<and>
   ([5, 9, 9, 9, 9] :: int list) ! 3 \<le> [9, 9, 9, 9] ! 3"
proof -
  let ?cs = "[(strong, [True], 9, memory_order_relaxed), (weak, [], 7, memory_order_release),
      (hardware, [], 7, memory_order_seq_cst), (smart, [True, True], 3, memory_order_acq_rel)]
      :: call list"
  let ?pv = "\<lparr>val = 5::int, trace = []\<rparr>"
  have h1: "int_range True 4 (val ?pv)" by (simp add: int_range_def)
  have h2: "\<forall>c\<in>set ?cs. int_range True 4 (candidate c)"
    by (simp add: int_range_def candidate_def)
  have h3: "sorted_wrt (\<ge>) (map candidate ?cs)" by (simp add: candidate_def)
  have h4: "\<forall>c\<in>set ?cs. strategy c = hardware \<longrightarrow> True \<and> order_of c \<in> defined_orders"
    by (simp add: defined_orders_def strategy_def order_of_def)
  have vals: "fetch_max_calls True ?cs ?pv = [9, 9, 9, 9]"
    by (simp add: atomic_fetch_max_def strong_call weak_call_keep smart_call_keep
        atomic_fetch_max_hardware_def asm_ld_def decode_def decode_suffix_def datasize_def
        amo_result_def SInt_def integral_type_def)
  note t = repeated_fetch_max_never_decreases [OF h1 h2 h3, where ARM_ARCH_8A = True]
  from conjunct1 [OF conjunct2 [OF t]] h4
  have len: "length (fetch_max_calls True ?cs ?pv) = length ?cs"
    by (rule mp)
  from conjunct1 [OF t] have "\<forall>i < 4. (val ?pv # [9, 9, 9, 9]) ! i \<le> [9, 9, 9, 9] ! i"
    unfolding vals by simp
  then have "(val ?pv # [9, 9, 9, 9]) ! 0 \<le> [9, 9, 9, 9] ! 0"
    "(val ?pv # [9, 9, 9, 9]) ! 1 \<le> [9, 9, 9, 9] ! 1"
    "(val ?pv # [9, 9, 9, 9]) ! 2 \<le> [9, 9, 9, 9] ! 2"
    "(val ?pv # [9, 9, 9, 9]) ! 3 \<le> [9, 9, 9, 9] ! 3"
    by simp_all
  with len vals show ?thesis by simp
qed

end
